theory Spec2Isabelle
  imports Main
begin

section \<open>Data model of \<^verbatim>\<open>treeano/core/network.py\<close>\<close>

text \<open>
  Nodes are identified by their unique name; a node object is modelled by its name and
  its hooks are looked up by name in the environment \<open>env\<close> below.
\<close>

type_synonym name = string
type_synonym key = string

text \<open>Python values stored as hyperparameters, auxiliary data and hook results.\<close>

datatype pyvalue =
    PyNone
  | PyBool bool
  | PyInt int
  | PyStr string
  | PyList "pyvalue list"
  | PyObject nat

text \<open>
  Exceptions. \<open>MissingHyperparameter\<close> carries the \<open>hyperparameter_keys\<close> entry of the
  dict it is raised with. \<open>GraphMutationAfterFreeze\<close> and \<open>CycleDetected\<close> are the
  failures of the graph's edge editing; \<open>OtherError\<close> is any exception of code outside
  \<^verbatim>\<open>network.py\<close>.
\<close>

datatype error =
    MissingHyperparameter "key list"
  | KeyError string
  | AssertionError
  | ValueError string
  | TypeError
  | AttributeError string
  | GraphMutationAfterFreeze
  | CycleDetected
  | OtherError string

text \<open>
  The per-node dict \<open>node_state\<close>: the four entries \<open>build\<close> initialises, and
  \<open>inputs\<close>, which is absent until \<open>store_inputs\<close> sets it.
\<close>

record 'v node_state =
  current_variables :: "key \<rightharpoonup> 'v"
  original_variables :: "key \<rightharpoonup> 'v"
  additional_data :: "key \<rightharpoonup> pyvalue"
  set_hyperparameters :: "name \<rightharpoonup> (key \<rightharpoonup> pyvalue)"
  inputs :: "(key \<rightharpoonup> 'v) option"

text \<open>
  The graph object: the attribute \<open>is_mutable\<close> that \<open>build\<close> clears, and the rest of the
  object (name table, architecture tree, computation graph), whose class is defined
  outside \<^verbatim>\<open>network.py\<close>.
\<close>

record 'g treeano_graph =
  is_mutable :: bool
  internals :: 'g

text \<open>
  The attributes of a \<open>Network\<close>. The attribute \<open>graph\<close> exists only once \<open>build\<close> has
  constructed it (\<open>hasattr(self, "graph")\<close>), hence the option.
\<close>

record ('g, 'v, 'u) network =
  root_node :: name
  node_state :: "name \<rightharpoonup> 'v node_state"
  update_deltas :: 'u
  override_hyperparameters :: "key \<rightharpoonup> pyvalue"
  default_hyperparameters :: "key \<rightharpoonup> pyvalue"
  graph :: "'g treeano_graph option"

text \<open>
  What a node hook may change through the Relative View it is handed: the graph object,
  the node state store and the update deltas.
\<close>

type_synonym ('g, 'v, 'u) effect = "'g treeano_graph \<times> (name \<rightharpoonup> 'v node_state) \<times> 'u"

text \<open>
  The code this module calls and that lives in other modules: the graph class, the
  variable and update-delta classes and the hooks of the node classes. They are
  parameters of the model. A hook receives the node's name and the network, and
  returns its effect and either its return value or the exception it raised
  (\<open>build\<close> ignores the return value of every hook but \<open>compute_output\<close>). The
  hooks \<open>get_hyperparameter\<close> and \<open>get_input_keys\<close> only read the network.
\<close>

record ('g, 'v, 'u) env =
  TreeanoGraph :: "name \<Rightarrow> error + 'g treeano_graph"
  architectural_tree_nodes_root_to_leaves :: "'g treeano_graph \<Rightarrow> name list"
  computation_graph_nodes_topological :: "'g treeano_graph \<Rightarrow> name list"
  architecture_ancestors :: "'g treeano_graph \<Rightarrow> name \<Rightarrow> name list"
  name_to_node :: "'g treeano_graph \<Rightarrow> name \<rightharpoonup> name"
  input_edge_for_node :: "'g treeano_graph \<Rightarrow> name \<Rightarrow> key \<Rightarrow> (name \<times> key) option"
  creates_cycle :: "'g \<Rightarrow> name \<Rightarrow> name \<Rightarrow> bool"
  insert_edge :: "'g \<Rightarrow> name \<Rightarrow> name \<Rightarrow> key \<Rightarrow> key \<Rightarrow> 'g"
  delete_edge :: "'g \<Rightarrow> name \<Rightarrow> name \<Rightarrow> 'g"
  UpdateDeltas :: 'u
  VariableWrapper :: "string \<Rightarrow> name \<Rightarrow> (string \<times> pyvalue) list \<Rightarrow> error + 'v"
  get_hyperparameter :: "name \<Rightarrow> ('g, 'v, 'u) network \<Rightarrow> key \<Rightarrow> error + pyvalue"
  get_input_keys :: "name \<Rightarrow> ('g, 'v, 'u) network \<Rightarrow> error + key list"
  init_long_range_dependencies ::
    "name \<Rightarrow> ('g, 'v, 'u) network \<Rightarrow> ('g, 'v, 'u) effect \<times> (error + pyvalue)"
  init_state :: "name \<Rightarrow> ('g, 'v, 'u) network \<Rightarrow> ('g, 'v, 'u) effect \<times> (error + pyvalue)"
  compute_output ::
    "name \<Rightarrow> 'v list \<Rightarrow> ('g, 'v, 'u) network \<Rightarrow> ('g, 'v, 'u) effect \<times> (error + pyvalue)"
  mutate_update_deltas ::
    "name \<Rightarrow> ('g, 'v, 'u) network \<Rightarrow> ('g, 'v, 'u) effect \<times> (error + pyvalue)"

section \<open>\<open>Network.__init__\<close>\<close>

definition Network_init ::
  "('g, 'v, 'u) env \<Rightarrow> name \<Rightarrow> (key \<rightharpoonup> pyvalue) option \<Rightarrow> (key \<rightharpoonup> pyvalue) option
    \<Rightarrow> ('g, 'v, 'u) network" where
  "Network_init E root override_arg default_arg =
     \<lparr>root_node = root,
      node_state = Map.empty,
      update_deltas = UpdateDeltas E,
      override_hyperparameters =
        (case override_arg of None \<Rightarrow> Map.empty | Some m \<Rightarrow> m),
      default_hyperparameters =
        (case default_arg of None \<Rightarrow> [''batch_axis'' \<mapsto> PyInt 0] | Some m \<Rightarrow> m),
      graph = None\<rparr>"

definition is_built :: "('g, 'v, 'u) network \<Rightarrow> bool" where
  "is_built net = (graph net \<noteq> None)"

section \<open>Hyperparameter resolution\<close>

text \<open>
  A Python generator that reads but does not change the state: the values it yields, in
  order, and the exception that ends it, if one does.
\<close>

type_synonym 'a generator = "'a list \<times> error option"

text \<open>Running one generator body after another: an exception in the first ends both.\<close>

fun gen_append :: "'a generator \<Rightarrow> 'a generator \<Rightarrow> 'a generator" where
  "gen_append (xs, None) (ys, e) = (xs @ ys, e)"
| "gen_append (xs, Some e) _ = (xs, Some e)"

text \<open>The first \<open>next()\<close> on a generator.\<close>

datatype 'a next_result = Yielded 'a | StopIteration | Raised error

fun gen_next :: "'a generator \<Rightarrow> 'a next_result" where
  "gen_next (x # xs, e) = Yielded x"
| "gen_next ([], None) = StopIteration"
| "gen_next ([], Some e) = Raised e"

text \<open>
  \<^verbatim>\<open>for hyperparameter_key in hyperparameter_keys:
      if hyperparameter_key in d: yield d[hyperparameter_key]\<close>
  (the loops over \<open>override_hyperparameters\<close> and over \<open>default_hyperparameters\<close>).
\<close>

fun yield_present :: "(key \<rightharpoonup> pyvalue) \<Rightarrow> key list \<Rightarrow> pyvalue list" where
  "yield_present d [] = []"
| "yield_present d (k # ks) =
     (case d k of
        Some v \<Rightarrow> v # yield_present d ks
      | None \<Rightarrow> yield_present d ks)"

text \<open>
  \<^verbatim>\<open>node_hps[ancestor_name][hyperparameter_key]\<close>, with \<open>None\<close> for the \<open>KeyError\<close> of
  either lookup.
\<close>

definition set_value ::
  "(name \<rightharpoonup> (key \<rightharpoonup> pyvalue)) \<Rightarrow> name \<Rightarrow> key \<Rightarrow> pyvalue option" where
  "set_value node_hps ancestor_name k =
     (case node_hps ancestor_name of None \<Rightarrow> None | Some m \<Rightarrow> m k)"

text \<open>
  \<^verbatim>\<open>for ancestor_name in done_ancestors_names:
      try: yield node_hps[ancestor_name][hyperparameter_key]
      except KeyError: pass\<close>
\<close>

fun yield_set_hyperparameters ::
  "(name \<rightharpoonup> (key \<rightharpoonup> pyvalue)) \<Rightarrow> key \<Rightarrow> name list \<Rightarrow> pyvalue list" where
  "yield_set_hyperparameters node_hps k [] = []"
| "yield_set_hyperparameters node_hps k (a # as) =
     (case set_value node_hps a k of
        None \<Rightarrow> yield_set_hyperparameters node_hps k as
      | Some v \<Rightarrow> v # yield_set_hyperparameters node_hps k as)"

text \<open>
  \<^verbatim>\<open>try: yield node.get_hyperparameter(self, hyperparameter_key)
  except MissingHyperparameter: pass\<close>
\<close>

definition yield_provided ::
  "('g, 'v, 'u) env \<Rightarrow> ('g, 'v, 'u) network \<Rightarrow> name \<Rightarrow> key \<Rightarrow> pyvalue generator" where
  "yield_provided E net node k =
     (case get_hyperparameter E node net k of
        Inr v \<Rightarrow> ([v], None)
      | Inl (MissingHyperparameter _) \<Rightarrow> ([], None)
      | Inl e \<Rightarrow> ([], Some e))"

text \<open>The loop over \<open>hyperparameter_keys\<close> inside the loop over the chain.\<close>

fun hierarchy_keys ::
  "('g, 'v, 'u) env \<Rightarrow> ('g, 'v, 'u) network \<Rightarrow> name \<Rightarrow> (name \<rightharpoonup> (key \<rightharpoonup> pyvalue))
    \<Rightarrow> name list \<Rightarrow> key list \<Rightarrow> pyvalue generator" where
  "hierarchy_keys E net node node_hps done_ancestors_names [] = ([], None)"
| "hierarchy_keys E net node node_hps done_ancestors_names (k # ks) =
     gen_append (yield_set_hyperparameters node_hps k done_ancestors_names, None)
       (gen_append (yield_provided E net node k)
          (hierarchy_keys E net node node_hps done_ancestors_names ks))"

text \<open>
  The loop \<^verbatim>\<open>for node in [self._node] + ancestors\<close>; \<open>done_ancestors_names\<close> is the list
  built up so far, and \<open>self.node_state[node.name]\<close> raises \<open>KeyError\<close> for a node without
  state.
\<close>

fun hierarchy_nodes ::
  "('g, 'v, 'u) env \<Rightarrow> ('g, 'v, 'u) network \<Rightarrow> key list \<Rightarrow> name list \<Rightarrow> name list
    \<Rightarrow> pyvalue generator" where
  "hierarchy_nodes E net keys done_ancestors_names [] = ([], None)"
| "hierarchy_nodes E net keys done_ancestors_names (node # rest) =
     (let done_ancestors_names' = done_ancestors_names @ [node] in
      case node_state net node of
        None \<Rightarrow> ([], Some (KeyError node))
      | Some st \<Rightarrow>
          gen_append
            (hierarchy_keys E net node (set_hyperparameters st) done_ancestors_names' keys)
            (hierarchy_nodes E net keys done_ancestors_names' rest))"

text \<open>
  The part of \<open>find_hyperparameters\<close> between the override loop and the default value:
  \<open>self.graph\<close> raises \<open>AttributeError\<close> on a network without a graph.
\<close>

definition hierarchy_tier ::
  "('g, 'v, 'u) env \<Rightarrow> ('g, 'v, 'u) network \<Rightarrow> name \<Rightarrow> key list \<Rightarrow> pyvalue generator" where
  "hierarchy_tier E net self_name keys =
     (case graph net of
        None \<Rightarrow> ([], Some (AttributeError ''graph''))
      | Some g \<Rightarrow>
          hierarchy_nodes E net keys [] (self_name # architecture_ancestors E g self_name))"

text \<open>
  \<open>RelativeNetwork.find_hyperparameters\<close>. The argument \<open>default_value\<close> is \<open>None\<close> for
  the sentinel \<open>NoDefaultValue\<close>.
\<close>

definition find_hyperparameters ::
  "('g, 'v, 'u) env \<Rightarrow> ('g, 'v, 'u) network \<Rightarrow> name \<Rightarrow> key list \<Rightarrow> pyvalue option
    \<Rightarrow> pyvalue generator" where
  "find_hyperparameters E net self_name hyperparameter_keys default_value =
     gen_append (yield_present (override_hyperparameters net) hyperparameter_keys, None)
       (gen_append (hierarchy_tier E net self_name hyperparameter_keys)
          (gen_append
             (case default_value of None \<Rightarrow> ([], None) | Some d \<Rightarrow> ([d], None))
             (yield_present (default_hyperparameters net) hyperparameter_keys, None)))"

text \<open>
  \<open>RelativeNetwork.find_hyperparameter\<close>: the first value of the generator, and
  \<open>MissingHyperparameter\<close> with the keys when the generator is exhausted at once.
\<close>

definition find_hyperparameter ::
  "('g, 'v, 'u) env \<Rightarrow> ('g, 'v, 'u) network \<Rightarrow> name \<Rightarrow> key list \<Rightarrow> pyvalue option
    \<Rightarrow> error + pyvalue" where
  "find_hyperparameter E net self_name hyperparameter_keys default_value =
     (case gen_next (find_hyperparameters E net self_name hyperparameter_keys default_value) of
        Yielded val \<Rightarrow> Inr val
      | StopIteration \<Rightarrow> Inl (MissingHyperparameter hyperparameter_keys)
      | Raised e \<Rightarrow> Inl e)"

text \<open>
  The first candidate key, in order, that a dict holds, with its value: what a scan of
  the dict by candidate-key order finds first.
\<close>

definition first_present :: "(key \<rightharpoonup> pyvalue) \<Rightarrow> key list \<Rightarrow> pyvalue option" where
  "first_present d ks = (case filter (\<lambda>k. d k \<noteq> None) ks of [] \<Rightarrow> None | k # _ \<Rightarrow> d k)"

section \<open>Actions on a state that may raise\<close>

text \<open>
  A method that mutates its object and may raise: it returns the state it leaves behind
  together with its return value or the exception. An exception does not undo the
  mutations made before it.
\<close>

type_synonym ('s, 'a) action = "'s \<Rightarrow> 's \<times> (error + 'a)"

definition succeed :: "'a \<Rightarrow> ('s, 'a) action" where
  "succeed a s = (s, Inr a)"

definition raise :: "error \<Rightarrow> ('s, 'a) action" where
  "raise e s = (s, Inl e)"

definition and_then :: "('s, 'a) action \<Rightarrow> ('a \<Rightarrow> ('s, 'b) action) \<Rightarrow> ('s, 'b) action" where
  "and_then m f s = (case m s of (s', Inl e) \<Rightarrow> (s', Inl e) | (s', Inr a) \<Rightarrow> f a s')"

text \<open>A \<^verbatim>\<open>for\<close> loop whose body may raise.\<close>

primrec for_each :: "('a \<Rightarrow> ('s, unit) action) \<Rightarrow> 'a list \<Rightarrow> ('s, unit) action" where
  "for_each body [] = succeed ()"
| "for_each body (x # xs) = and_then (body x) (\<lambda>_. for_each body xs)"

section \<open>The graph's edge editing\<close>

text \<open>
  Modelled from the spec: the class \<open>TreeanoGraph\<close> is not in \<^verbatim>\<open>network.py\<close>. The spec
  says of \<open>add_dependency(from_name, to_name, from_key, to_key)\<close> that it "fails if the
  graph is frozen or if adding the edge would create a cycle". What a cycle is and how
  an edge is stored are the parameters \<open>creates_cycle\<close> and \<open>insert_edge\<close>.
\<close>

definition graph_add_dependency ::
  "('g, 'v, 'u) env \<Rightarrow> name \<Rightarrow> name \<Rightarrow> key \<Rightarrow> key \<Rightarrow> 'g treeano_graph
    \<Rightarrow> error + 'g treeano_graph" where
  "graph_add_dependency E from_name to_name from_key to_key g =
     (if \<not> is_mutable g then Inl GraphMutationAfterFreeze
      else if creates_cycle E (internals g) from_name to_name then Inl CycleDetected
      else Inr (g\<lparr>internals := insert_edge E (internals g) from_name to_name from_key to_key\<rparr>))"

text \<open>
  Modelled from the spec: the class \<open>TreeanoGraph\<close> is not in \<^verbatim>\<open>network.py\<close>. The spec
  says of \<open>remove_dependency(from_name, to_name)\<close> that it "fails if frozen".
\<close>

definition graph_remove_dependency ::
  "('g, 'v, 'u) env \<Rightarrow> name \<Rightarrow> name \<Rightarrow> 'g treeano_graph \<Rightarrow> error + 'g treeano_graph" where
  "graph_remove_dependency E from_name to_name g =
     (if \<not> is_mutable g then Inl GraphMutationAfterFreeze
      else Inr (g\<lparr>internals := delete_edge E (internals g) from_name to_name\<rparr>))"

section \<open>The methods of \<open>RelativeNetwork\<close>\<close>

text \<open>
  A \<open>RelativeNetwork\<close> is a network and a node; its \<open>_state\<close> is the node's entry of
  \<open>node_state\<close>, which \<open>__init__\<close> looks up (\<open>KeyError\<close> for a node without state). The
  methods below take the node's name \<open>self_name\<close> and act on the network.
\<close>

definition RelativeNetwork :: "('g, 'v, 'u) network \<Rightarrow> name \<Rightarrow> error + 'v node_state" where
  "RelativeNetwork net node =
     (case node_state net node of None \<Rightarrow> Inl (KeyError node) | Some st \<Rightarrow> Inr st)"

definition put_state ::
  "name \<Rightarrow> 'v node_state \<Rightarrow> ('g, 'v, 'u) network \<Rightarrow> ('g, 'v, 'u) network" where
  "put_state self_name st net = net\<lparr>node_state := (node_state net)(self_name \<mapsto> st)\<rparr>"

definition store_inputs :: "name \<Rightarrow> (key \<rightharpoonup> 'v) \<Rightarrow> (('g, 'v, 'u) network, unit) action" where
  "store_inputs self_name ins net =
     (case RelativeNetwork net self_name of
        Inl e \<Rightarrow> (net, Inl e)
      | Inr st \<Rightarrow> (put_state self_name (st\<lparr>inputs := Some ins\<rparr>) net, Inr ()))"

definition get_variable :: "name \<Rightarrow> key \<Rightarrow> (('g, 'v, 'u) network, 'v) action" where
  "get_variable self_name variable_name net =
     (case RelativeNetwork net self_name of
        Inl e \<Rightarrow> (net, Inl e)
      | Inr st \<Rightarrow>
          (case current_variables st variable_name of
             None \<Rightarrow> (net, Inl (KeyError variable_name))
           | Some v \<Rightarrow> (net, Inr v)))"

definition set_hyperparameter ::
  "name \<Rightarrow> name \<Rightarrow> key \<Rightarrow> pyvalue \<Rightarrow> (('g, 'v, 'u) network, unit) action" where
  "set_hyperparameter self_name node_name k v net =
     (case RelativeNetwork net self_name of
        Inl e \<Rightarrow> (net, Inl e)
      | Inr st \<Rightarrow>
          (let m = (case set_hyperparameters st node_name of None \<Rightarrow> Map.empty | Some m \<Rightarrow> m)
           in (put_state self_name
                 (st\<lparr>set_hyperparameters := (set_hyperparameters st)(node_name \<mapsto> m(k \<mapsto> v))\<rparr>)
                 net,
               Inr ())))"

definition create_variable ::
  "('g, 'v, 'u) env \<Rightarrow> name \<Rightarrow> key \<Rightarrow> (string \<times> pyvalue) list
    \<Rightarrow> (('g, 'v, 'u) network, 'v) action" where
  "create_variable E self_name name kwargs net =
     (case RelativeNetwork net self_name of
        Inl e \<Rightarrow> (net, Inl e)
      | Inr st \<Rightarrow>
          if current_variables st name \<noteq> None then (net, Inl AssertionError)
          else if original_variables st name \<noteq> None then (net, Inl AssertionError)
          else
            (case VariableWrapper E (self_name @ '':'' @ name) self_name kwargs of
               Inl e \<Rightarrow> (net, Inl e)
             | Inr variable \<Rightarrow>
                 (put_state self_name
                    (st\<lparr>current_variables := (current_variables st)(name \<mapsto> variable),
                        original_variables := (original_variables st)(name \<mapsto> variable)\<rparr>)
                    net,
                  Inr variable)))"

definition replace_variable :: "name \<Rightarrow> key \<Rightarrow> 'v \<Rightarrow> (('g, 'v, 'u) network, 'v) action" where
  "replace_variable self_name name new_variable net =
     (case RelativeNetwork net self_name of
        Inl e \<Rightarrow> (net, Inl e)
      | Inr st \<Rightarrow>
          if original_variables st name = None then (net, Inl AssertionError)
          else
            (put_state self_name
               (st\<lparr>current_variables := (current_variables st)(name \<mapsto> new_variable)\<rparr>)
               net,
             Inr new_variable))"

text \<open>\<open>self.graph\<close>, which \<open>__getattr__\<close> reads from the network.\<close>

definition the_graph :: "(('g, 'v, 'u) network, 'g treeano_graph) action" where
  "the_graph net =
     (case graph net of None \<Rightarrow> (net, Inl (AttributeError ''graph'')) | Some g \<Rightarrow> (net, Inr g))"

definition add_dependency ::
  "('g, 'v, 'u) env \<Rightarrow> name \<Rightarrow> name \<Rightarrow> key \<Rightarrow> key \<Rightarrow> (('g, 'v, 'u) network, unit) action" where
  "add_dependency E from_name to_name from_key to_key =
     and_then the_graph (\<lambda>g net.
       case graph_add_dependency E from_name to_name from_key to_key g of
         Inl e \<Rightarrow> (net, Inl e)
       | Inr g' \<Rightarrow> (net\<lparr>graph := Some g'\<rparr>, Inr ()))"

definition remove_dependency ::
  "('g, 'v, 'u) env \<Rightarrow> name \<Rightarrow> name \<Rightarrow> (('g, 'v, 'u) network, unit) action" where
  "remove_dependency E from_name to_name =
     and_then the_graph (\<lambda>g net.
       case graph_remove_dependency E from_name to_name g of
         Inl e \<Rightarrow> (net, Inl e)
       | Inr g' \<Rightarrow> (net\<lparr>graph := Some g'\<rparr>, Inr ()))"

definition forward_input_to ::
  "('g, 'v, 'u) env \<Rightarrow> name \<Rightarrow> name \<Rightarrow> key \<Rightarrow> key \<Rightarrow> bool
    \<Rightarrow> (('g, 'v, 'u) network, unit) action" where
  "forward_input_to E self_name node_name previous_to_key to_key ignore_no_input =
     and_then the_graph (\<lambda>g.
       case input_edge_for_node E g self_name previous_to_key of
         None \<Rightarrow>
           if \<not> ignore_no_input
           then raise (ValueError (''forward_input_to called on node without input key: ''
                                     @ previous_to_key))
           else succeed ()
       | Some (name_from, from_key) \<Rightarrow>
           add_dependency E name_from node_name from_key to_key)"

text \<open>The call \<open>forward_input_to(node_name)\<close>, every other argument at its default.\<close>

definition forward_input_to_defaults ::
  "('g, 'v, 'u) env \<Rightarrow> name \<Rightarrow> name \<Rightarrow> (('g, 'v, 'u) network, unit) action" where
  "forward_input_to_defaults E self_name node_name =
     forward_input_to E self_name node_name ''default'' ''default'' True"

section \<open>\<open>Network.build\<close>\<close>

text \<open>
  The log is ghost state: \<open>build\<close> appends an entry for each hook of a node it has
  invoked and when it clears \<open>is_mutable\<close>, and never reads it. The entry of a hook
  records the value of the graph's \<open>is_mutable\<close> as the hook was entered (\<open>None\<close>: the
  network had no graph) and what the hook returned or raised.
\<close>

datatype hook = InitLongRangeDependencies | InitState | ComputeOutput | MutateUpdateDeltas

datatype event = Call hook name "bool option" "error + pyvalue" | Freeze

type_synonym ('g, 'v, 'u) build_state = "event list \<times> ('g, 'v, 'u) network"

definition on_network ::
  "(('g, 'v, 'u) network, 'a) action \<Rightarrow> (('g, 'v, 'u) build_state, 'a) action" where
  "on_network m s = (case m (snd s) of (net', r) \<Rightarrow> ((fst s, net'), r))"

definition apply_effect ::
  "('g, 'v, 'u) network \<Rightarrow> ('g, 'v, 'u) effect \<Rightarrow> ('g, 'v, 'u) network" where
  "apply_effect net eff =
     (case eff of (g, ns, u) \<Rightarrow> net\<lparr>graph := Some g, node_state := ns, update_deltas := u\<rparr>)"

text \<open>Invoking the hook \<open>h\<close> of \<open>node\<close>.\<close>

definition call_hook ::
  "hook \<Rightarrow> name \<Rightarrow> (('g, 'v, 'u) network \<Rightarrow> ('g, 'v, 'u) effect \<times> (error + pyvalue))
    \<Rightarrow> (('g, 'v, 'u) build_state, pyvalue) action" where
  "call_hook h node f s =
     (case f (snd s) of
        (eff, r) \<Rightarrow>
          ((fst s @ [Call h node (map_option is_mutable (graph (snd s))) r],
            apply_effect (snd s) eff),
           r))"

definition empty_node_state :: "'v node_state" where
  "empty_node_state =
     \<lparr>current_variables = Map.empty,
      original_variables = Map.empty,
      additional_data = Map.empty,
      set_hyperparameters = Map.empty,
      inputs = None\<rparr>"

text \<open>The first loop of \<open>build\<close>: an empty state for each node.\<close>

definition init_node_states :: "name list \<Rightarrow> (('g, 'v, 'u) build_state, unit) action" where
  "init_node_states nodes s =
     ((fst s,
       (snd s)\<lparr>node_state :=
         fold (\<lambda>node m. m(node \<mapsto> empty_node_state)) nodes (node_state (snd s))\<rparr>),
      Inr ())"

text \<open>
  \<open>Network.relative_network\<close>: \<open>self.build()\<close>, then the view. The argument \<open>self_build\<close>
  is the method \<open>build\<close>, which is defined below and calls this one. The view is
  represented by the node's name.
\<close>

definition relative_network ::
  "(('g, 'v, 'u) build_state, unit) action \<Rightarrow> name \<Rightarrow> (('g, 'v, 'u) build_state, name) action"
  where
  "relative_network self_build node =
     and_then self_build (\<lambda>_ s.
       case RelativeNetwork (snd s) node of
         Inl e \<Rightarrow> (s, Inl e)
       | Inr _ \<Rightarrow> (s, Inr node))"

text \<open>\<open>Network.__getitem__\<close>.\<close>

definition getitem ::
  "(('g, 'v, 'u) build_state, unit) action \<Rightarrow> ('g, 'v, 'u) env \<Rightarrow> name
    \<Rightarrow> (('g, 'v, 'u) build_state, name) action" where
  "getitem self_build E node_name =
     and_then self_build (\<lambda>_.
     and_then (on_network the_graph) (\<lambda>g.
       case name_to_node E g node_name of
         None \<Rightarrow> raise (KeyError node_name)
       | Some node \<Rightarrow> relative_network self_build node))"

text \<open>
  The inner loop of the output phase: for each input key the edge that feeds it (unpacking
  \<open>None\<close> is a \<open>TypeError\<close>) and the variable at its source.
\<close>

primrec lookup_inputs ::
  "(('g, 'v, 'u) build_state, unit) action \<Rightarrow> ('g, 'v, 'u) env \<Rightarrow> name \<Rightarrow> key list
    \<Rightarrow> (('g, 'v, 'u) build_state, 'v list) action" where
  "lookup_inputs self_build E node [] = succeed []"
| "lookup_inputs self_build E node (input_key # input_keys) =
     and_then (on_network the_graph) (\<lambda>g.
       case input_edge_for_node E g node input_key of
         None \<Rightarrow> raise TypeError
       | Some (node_name, from_key) \<Rightarrow>
           and_then (getitem self_build E node_name) (\<lambda>rel.
           and_then (on_network (get_variable rel from_key)) (\<lambda>v.
           and_then (lookup_inputs self_build E node input_keys) (\<lambda>vs.
           succeed (v # vs)))))"

text \<open>\<open>dict(zip(input_keys, inputs))\<close>: a later pair replaces an earlier one.\<close>

definition dict_zip :: "key list \<Rightarrow> 'v list \<Rightarrow> (key \<rightharpoonup> 'v)" where
  "dict_zip ks vs = fold (\<lambda>(k, v) m. m(k \<mapsto> v)) (zip ks vs) Map.empty"

text \<open>The body of the output phase's loop, for one node.\<close>

definition compute_node ::
  "(('g, 'v, 'u) build_state, unit) action \<Rightarrow> ('g, 'v, 'u) env \<Rightarrow> name
    \<Rightarrow> (('g, 'v, 'u) build_state, unit) action" where
  "compute_node self_build E node =
     and_then (relative_network self_build node) (\<lambda>rel_network.
     and_then (\<lambda>s. (s, get_input_keys E node (snd s))) (\<lambda>input_keys.
     and_then (lookup_inputs self_build E node input_keys) (\<lambda>ins.
     and_then (on_network (store_inputs rel_network (dict_zip input_keys ins))) (\<lambda>_.
     and_then (call_hook ComputeOutput node (compute_output E node ins)) (\<lambda>output_res.
       if output_res = PyNone then succeed () else raise AssertionError)))))"

text \<open>\<open>self.graph.is_mutable = False\<close>.\<close>

definition freeze :: "(('g, 'v, 'u) build_state, unit) action" where
  "freeze s =
     (case graph (snd s) of
        None \<Rightarrow> (s, Inl (AttributeError ''graph''))
      | Some g \<Rightarrow>
          ((fst s @ [Freeze], (snd s)\<lparr>graph := Some (g\<lparr>is_mutable := False\<rparr>)\<rparr>), Inr ()))"

text \<open>A loop of \<open>build\<close> that hands each node's view to one of its hooks.\<close>

definition hook_loop ::
  "(('g, 'v, 'u) build_state, unit) action \<Rightarrow> hook
    \<Rightarrow> (name \<Rightarrow> ('g, 'v, 'u) network \<Rightarrow> ('g, 'v, 'u) effect \<times> (error + pyvalue))
    \<Rightarrow> name list \<Rightarrow> (('g, 'v, 'u) build_state, unit) action" where
  "hook_loop self_build h f nodes =
     for_each
       (\<lambda>node.
          and_then (relative_network self_build node) (\<lambda>_.
          and_then (call_hook h node (f node)) (\<lambda>_.
          succeed ())))
       nodes"

text \<open>The body of \<open>build\<close> after \<open>self.graph\<close> has been assigned.\<close>

definition build_phases ::
  "(('g, 'v, 'u) build_state, unit) action \<Rightarrow> ('g, 'v, 'u) env
    \<Rightarrow> (('g, 'v, 'u) build_state, unit) action" where
  "build_phases self_build E =
     and_then (on_network the_graph) (\<lambda>g.
     and_then (init_node_states (architectural_tree_nodes_root_to_leaves E g)) (\<lambda>_.
     and_then (on_network the_graph) (\<lambda>g.
     and_then (hook_loop self_build InitLongRangeDependencies (init_long_range_dependencies E)
                 (architectural_tree_nodes_root_to_leaves E g)) (\<lambda>_.
     and_then (on_network the_graph) (\<lambda>g.
     and_then (hook_loop self_build InitState (init_state E)
                 (architectural_tree_nodes_root_to_leaves E g)) (\<lambda>_.
     and_then freeze (\<lambda>_.
     and_then (on_network the_graph) (\<lambda>g.
     and_then (for_each (compute_node self_build E)
                 (computation_graph_nodes_topological E g)) (\<lambda>_.
     and_then (on_network the_graph) (\<lambda>g.
       hook_loop self_build MutateUpdateDeltas (mutate_update_deltas E)
         (architectural_tree_nodes_root_to_leaves E g)))))))))))"

text \<open>
  \<open>Network.build\<close> with a bound on the depth of its calls to itself through
  \<open>relative_network\<close>: at depth \<open>0\<close> Python's recursion limit is reached.
\<close>

primrec build_depth ::
  "nat \<Rightarrow> ('g, 'v, 'u) env \<Rightarrow> (('g, 'v, 'u) build_state, unit) action" where
  "build_depth 0 E = raise (OtherError ''RecursionError'')"
| "build_depth (Suc n) E =
     (\<lambda>s. if is_built (snd s) then (s, Inr ())
          else
            (case TreeanoGraph E (root_node (snd s)) of
               Inl e \<Rightarrow> (s, Inl e)
             | Inr g \<Rightarrow> build_phases (build_depth n E) E (fst s, (snd s)\<lparr>graph := Some g\<rparr>)))"

text \<open>
  \<open>Network.build\<close>. Two levels are all it ever uses (\<open>build_depth_enough\<close> below): the
  calls it makes to itself find the graph assigned and return at once.
\<close>

definition build :: "('g, 'v, 'u) env \<Rightarrow> (('g, 'v, 'u) build_state, unit) action" where
  "build E = build_depth (Suc (Suc 0)) E"

section \<open>Reading the log\<close>

fun called :: "event \<Rightarrow> (hook \<times> name) option" where
  "called (Call h n b out) = Some (h, n)"
| "called Freeze = None"

fun hook_of :: "event \<Rightarrow> hook option" where
  "hook_of (Call h n b out) = Some h"
| "hook_of Freeze = None"

fun seen_mutable :: "event \<Rightarrow> bool option" where
  "seen_mutable (Call h n b out) = b"
| "seen_mutable Freeze = None"

fun outcome :: "event \<Rightarrow> (error + pyvalue) option" where
  "outcome (Call h n b out) = Some out"
| "outcome Freeze = None"

text \<open>A network whose graph exists and has \<open>is_mutable\<close> cleared.\<close>

definition frozen :: "('g, 'v, 'u) network \<Rightarrow> bool" where
  "frozen net = (case graph net of None \<Rightarrow> False | Some g \<Rightarrow> \<not> is_mutable g)"

text \<open>
  No \<open>compute_output\<close> hook sets \<open>is_mutable\<close> on a frozen graph: the graph a hook leaves
  behind on a frozen network is frozen. (The Relative View has no method that sets the
  attribute.)
\<close>

definition keeps_frozen :: "('g, 'v, 'u) env \<Rightarrow> bool" where
  "keeps_frozen E =
     (\<forall>node ins net. frozen net \<longrightarrow> \<not> is_mutable (fst (fst (compute_output E node ins net))))"

text \<open>
  What \<open>build\<close> is to the calls made to it from inside itself: on a network that has its
  graph it returns at once.
\<close>

definition returns_at_once :: "(('g, 'v, 'u) build_state, unit) action \<Rightarrow> bool" where
  "returns_at_once self_build = (\<forall>s. is_built (snd s) \<longrightarrow> self_build s = (s, Inr ()))"

section \<open>A concrete network\<close>

text \<open>
  An environment and networks on which the theorems below are instantiated. The graph
  keeps its dependency edges in a list; the architecture is the chain
  \<open>root\<close>, \<open>mid\<close>, \<open>leaf\<close>; a variable is its full name. In \<open>ex_env0\<close> no hook does
  anything.
\<close>

type_synonym ex_graph = "(name \<times> name \<times> key \<times> key) list"

definition ex_unchanged :: "(ex_graph, string, unit) network \<Rightarrow> (ex_graph, string, unit) effect"
  where
  "ex_unchanged net =
     ((case graph net of Some g \<Rightarrow> g | None \<Rightarrow> \<lparr>is_mutable = True, internals = []\<rparr>),
      node_state net, update_deltas net)"

definition ex_env0 :: "(ex_graph, string, unit) env" where
  "ex_env0 =
     \<lparr>TreeanoGraph = (\<lambda>root. Inr \<lparr>is_mutable = True, internals = []\<rparr>),
      architectural_tree_nodes_root_to_leaves = (\<lambda>g. [''root'', ''mid'', ''leaf'']),
      computation_graph_nodes_topological = (\<lambda>g. [''mid'', ''leaf'', ''root'']),
      architecture_ancestors =
        (\<lambda>g n. if n = ''leaf'' then [''mid'', ''root'']
               else if n = ''mid'' then [''root''] else []),
      name_to_node =
        (\<lambda>g n. if n = ''root'' \<or> n = ''mid'' \<or> n = ''leaf'' then Some n else None),
      input_edge_for_node =
        (\<lambda>g n k. case filter (\<lambda>(f, t, fk, tk). t = n \<and> tk = k) (internals g) of
                   [] \<Rightarrow> None
                 | (f, t, fk, tk) # _ \<Rightarrow> Some (f, fk)),
      creates_cycle = (\<lambda>es f t. f = t),
      insert_edge = (\<lambda>es f t fk tk. es @ [(f, t, fk, tk)]),
      delete_edge = (\<lambda>es f t. filter (\<lambda>(f', t', fk, tk). f' \<noteq> f \<or> t' \<noteq> t) es),
      UpdateDeltas = (),
      VariableWrapper = (\<lambda>new_name owner kwargs. Inr new_name),
      get_hyperparameter =
        (\<lambda>n net k. if n = ''leaf'' \<and> k = ''own'' then Inr (PyInt 5)
                   else Inl (MissingHyperparameter [k])),
      get_input_keys = (\<lambda>n net. Inr []),
      init_long_range_dependencies = (\<lambda>n net. (ex_unchanged net, Inr PyNone)),
      init_state = (\<lambda>n net. (ex_unchanged net, Inr PyNone)),
      compute_output = (\<lambda>n ins net. (ex_unchanged net, Inr PyNone)),
      mutate_update_deltas = (\<lambda>n net. (ex_unchanged net, Inr PyNone))\<rparr>"

text \<open>
  In \<open>ex_env\<close> the \<open>init_state\<close> hook of \<open>root\<close> makes \<open>leaf\<close> depend on \<open>mid\<close>, \<open>leaf\<close> has
  the input key \<open>default\<close>, and the \<open>compute_output\<close> hook of every node creates the
  node's variable \<open>default\<close> and returns nothing.
\<close>

definition ex_env :: "(ex_graph, string, unit) env" where
  "ex_env =
     ex_env0
       \<lparr>get_input_keys := (\<lambda>n net. Inr (if n = ''leaf'' then [''default''] else [])),
        init_state :=
          (\<lambda>n net.
             if n = ''root''
             then (case add_dependency ex_env0 ''mid'' ''leaf'' ''default'' ''default'' net of
                     (net', r) \<Rightarrow> (ex_unchanged net', map_sum id (\<lambda>_. PyNone) r))
             else (ex_unchanged net, Inr PyNone)),
        compute_output :=
          (\<lambda>n ins net.
             case create_variable ex_env0 n ''default'' [] net of
               (net', r) \<Rightarrow> (ex_unchanged net', map_sum id (\<lambda>_. PyNone) r))\<rparr>"

text \<open>
  A built network: \<open>mid\<close> has set \<open>k2\<close> for \<open>leaf\<close>; \<open>root\<close> has set \<open>k1\<close> for \<open>mid\<close> and
  \<open>k3\<close> for \<open>leaf\<close>; the override map holds \<open>ov\<close>; the default map is the one
  \<open>__init__\<close> supplies.
\<close>

definition ex_net :: "(ex_graph, string, unit) network" where
  "ex_net =
     (Network_init ex_env ''root'' (Some [''ov'' \<mapsto> PyInt 100]) None)
       \<lparr>node_state :=
          [''leaf'' \<mapsto> empty_node_state,
           ''mid'' \<mapsto> empty_node_state
              \<lparr>set_hyperparameters := [''leaf'' \<mapsto> [''k2'' \<mapsto> PyInt 20]]\<rparr>,
           ''root'' \<mapsto> empty_node_state
              \<lparr>set_hyperparameters :=
                 [''mid'' \<mapsto> [''k1'' \<mapsto> PyInt 11], ''leaf'' \<mapsto> [''k3'' \<mapsto> PyInt 30]]\<rparr>],
        graph := Some \<lparr>is_mutable = True, internals = [(''mid'', ''leaf'', ''out'', ''in'')]\<rparr>\<rparr>"

text \<open>
  The same environment, except that the \<open>compute_output\<close> hook of \<open>leaf\<close> returns \<open>1\<close>
  after creating its variable.
\<close>

definition ex_env_returning :: "(ex_graph, string, unit) env" where
  "ex_env_returning =
     ex_env\<lparr>compute_output :=
       (\<lambda>n ins net.
          case compute_output ex_env n ins net of
            (eff, r) \<Rightarrow> (eff, if n = ''leaf'' then map_sum id (\<lambda>_. PyInt 1) r else r))\<rparr>"

section \<open>Generators\<close>

lemma gen_append_assoc: "gen_append (gen_append a b) c = gen_append a (gen_append b c)"
proof -
  obtain xs ea where a: "a = (xs, ea)" by (cases a)
  obtain ys eb where b: "b = (ys, eb)" by (cases b)
  obtain zs ec where c: "c = (zs, ec)" by (cases c)
  show ?thesis unfolding a b c by (cases ea; cases eb) simp_all
qed

lemma gen_append_empty_left: "gen_append ([], None) b = b"
  by (cases b) simp

lemma gen_next_append:
  "gen_next (gen_append a b) =
     (case gen_next a of Yielded v \<Rightarrow> Yielded v | Raised e \<Rightarrow> Raised e | StopIteration \<Rightarrow> gen_next b)"
proof (cases a)
  case (Pair xs e)
  show ?thesis
  proof (cases xs)
    case Nil
    with Pair show ?thesis by (cases e; cases b) auto
  next
    case (Cons x xs')
    with Pair show ?thesis by (cases e; cases b) auto
  qed
qed

lemma gen_next_yield_present:
  "gen_next (yield_present d ks, None) =
     (case first_present d ks of Some v \<Rightarrow> Yielded v | None \<Rightarrow> StopIteration)"
  by (induction ks) (auto simp: first_present_def split: option.splits)

lemma find_hyperparameter_cases:
  "find_hyperparameter E net self_name keys default_value =
     (case first_present (override_hyperparameters net) keys of
        Some v \<Rightarrow> Inr v
      | None \<Rightarrow>
          (case gen_next (hierarchy_tier E net self_name keys) of
             Yielded v \<Rightarrow> Inr v
           | Raised e \<Rightarrow> Inl e
           | StopIteration \<Rightarrow>
               (case default_value of
                  Some d \<Rightarrow> Inr d
                | None \<Rightarrow>
                    (case first_present (default_hyperparameters net) keys of
                       Some v \<Rightarrow> Inr v
                     | None \<Rightarrow> Inl (MissingHyperparameter keys)))))"
  unfolding find_hyperparameter_def find_hyperparameters_def
  by (simp add: gen_next_append gen_next_yield_present
      split: option.splits next_result.splits)

section \<open>Hyperparameter resolution: the order of the search\<close>

lemma hierarchy_nodes_append:
  "hierarchy_nodes E net keys done_names (pre @ rest) =
     gen_append (hierarchy_nodes E net keys done_names pre)
       (hierarchy_nodes E net keys (done_names @ pre) rest)"
proof (induction pre arbitrary: done_names)
  case Nil
  show ?case by (simp add: gen_append_empty_left)
next
  case (Cons p pre)
  show ?case
    by (cases "node_state net p") (simp_all add: Cons.IH gen_append_assoc Let_def)
qed

lemma yield_set_hyperparameters_nonempty:
  "t \<in> set ts \<Longrightarrow> set_value hps t k = Some v \<Longrightarrow> yield_set_hyperparameters hps k ts \<noteq> []"
  by (induction ts) (auto split: option.splits)

lemma yield_set_hyperparameters_first:
  "yield_set_hyperparameters hps k ts1 = [] \<Longrightarrow> set_value hps t k = Some v \<Longrightarrow>
   yield_set_hyperparameters hps k (ts1 @ t # ts2) = v # yield_set_hyperparameters hps k ts2"
  by (induction ts1) (auto split: option.splits)

lemma hierarchy_keys_append:
  "hierarchy_keys E net node hps ds (ks1 @ ks2) =
     gen_append (hierarchy_keys E net node hps ds ks1) (hierarchy_keys E net node hps ds ks2)"
  by (induction ks1) (simp_all add: gen_append_empty_left gen_append_assoc)

lemma hierarchy_keys_not_exhausted:
  "k \<in> set keys \<Longrightarrow> t \<in> set ds \<Longrightarrow> set_value hps t k = Some v \<Longrightarrow>
   gen_next (hierarchy_keys E net node hps ds keys) \<noteq> StopIteration"
proof (induction keys)
  case Nil then show ?case by simp
next
  case (Cons k' keys)
  show ?case
  proof (cases "k' = k")
    case True
    with Cons.prems have "yield_set_hyperparameters hps k' ds \<noteq> []"
      using yield_set_hyperparameters_nonempty [of t ds hps k v] by simp
    then obtain x xs where "yield_set_hyperparameters hps k' ds = x # xs"
      by (cases "yield_set_hyperparameters hps k' ds") auto
    then show ?thesis by (simp add: gen_next_append)
  next
    case False
    with Cons have "gen_next (hierarchy_keys E net node hps ds keys) \<noteq> StopIteration" by auto
    then show ?thesis
      by (simp add: gen_next_append split: next_result.splits)
  qed
qed

lemma first_present_None: "first_present d ks = None \<longleftrightarrow> (\<forall>k\<in>set ks. d k = None)"
  by (induction ks) (auto simp: first_present_def split: list.splits)

lemma hierarchy_tier_built:
  "graph net = Some g \<Longrightarrow>
   hierarchy_tier E net self_name keys =
     hierarchy_nodes E net keys [] (self_name # architecture_ancestors E g self_name)"
  by (simp add: hierarchy_tier_def)

text \<open>
  C1. On a built network \<open>find_hyperparameter\<close> returns the first value of four tiers
  searched in this order: the first candidate key held by the override map; the first
  value of the walk over the chain \<open>[this node, parent, ..., root]\<close>; the caller's
  default, if one was given; the first candidate key held by the global default map. A
  value of an earlier tier is returned whatever the later tiers hold. An exception raised
  by the walk before it yields anything is raised by the call.
\<close>

theorem find_hyperparameter_tier_order:
  assumes "graph net = Some g"
  shows "find_hyperparameter E net self_name keys default_value =
     (case first_present (override_hyperparameters net) keys of
        Some v \<Rightarrow> Inr v
      | None \<Rightarrow>
          (case gen_next (hierarchy_nodes E net keys []
                            (self_name # architecture_ancestors E g self_name)) of
             Yielded v \<Rightarrow> Inr v
           | Raised e \<Rightarrow> Inl e
           | StopIteration \<Rightarrow>
               (case default_value of
                  Some d \<Rightarrow> Inr d
                | None \<Rightarrow>
                    (case first_present (default_hyperparameters net) keys of
                       Some v \<Rightarrow> Inr v
                     | None \<Rightarrow> Inl (MissingHyperparameter keys)))))"
  unfolding find_hyperparameter_cases hierarchy_tier_built [OF assms] ..

lemmas ex_simps = ex_net_def ex_env_def ex_env0_def Network_init_def empty_node_state_def
  yield_provided_def set_value_def first_present_def

text \<open>
  On \<open>ex_net\<close>: for the keys \<open>[k1, k2]\<close> the value \<open>mid\<close> has set for \<open>k2\<close> is returned and
  not the caller's default \<open>99\<close>; for \<open>[k1, ov]\<close> the override entry of \<open>ov\<close> is returned
  although \<open>root\<close> has set \<open>k1\<close>.
\<close>

theorem find_hyperparameter_tier_order_witness:
  "graph ex_net = Some \<lparr>is_mutable = True, internals = [(''mid'', ''leaf'', ''out'', ''in'')]\<rparr>
   \<and> find_hyperparameter ex_env ex_net ''leaf'' [''k1'', ''k2''] (Some (PyInt 99)) = Inr (PyInt 20)
   \<and> find_hyperparameter ex_env ex_net ''leaf'' [''k1'', ''ov''] (Some (PyInt 99)) = Inr (PyInt 100)"
proof -
  have g: "graph ex_net = Some \<lparr>is_mutable = True, internals = [(''mid'', ''leaf'', ''out'', ''in'')]\<rparr>"
    by (simp add: ex_net_def)
  show ?thesis
    using g find_hyperparameter_tier_order [OF g, of ex_env "''leaf''" "[''k1'', ''k2'']" "Some (PyInt 99)"]
      find_hyperparameter_tier_order [OF g, of ex_env "''leaf''" "[''k1'', ''ov'']" "Some (PyInt 99)"]
    by (simp add: ex_simps)
qed

text \<open>
  C4. A call of \<open>find_hyperparameter\<close> without a caller default: when neither map holds a
  candidate key and the walk over the chain ends without a value, it raises
  \<open>MissingHyperparameter\<close> carrying the candidate keys; when the override map holds a
  candidate key, or the walk yields a value, or the walk ends and the global default map
  holds a candidate key, it returns a value.
\<close>

theorem find_hyperparameter_missing:
  assumes "graph net = Some g"
    and "hier = hierarchy_nodes E net keys [] (self_name # architecture_ancestors E g self_name)"
  shows
    "((\<forall>k\<in>set keys. override_hyperparameters net k = None) \<and> hier = ([], None)
        \<and> (\<forall>k\<in>set keys. default_hyperparameters net k = None)
       \<longrightarrow> find_hyperparameter E net self_name keys None = Inl (MissingHyperparameter keys))
     \<and> ((\<exists>k\<in>set keys. override_hyperparameters net k \<noteq> None) \<or> fst hier \<noteq> []
          \<or> (snd hier = None \<and> (\<exists>k\<in>set keys. default_hyperparameters net k \<noteq> None))
       \<longrightarrow> (\<exists>v. find_hyperparameter E net self_name keys None = Inr v))"
proof -
  obtain vs e where h: "hier = (vs, e)" by (cases hier)
  have tier: "hierarchy_tier E net self_name keys = (vs, e)"
    using assms h by (simp add: hierarchy_tier_built)
  have ov: "(\<exists>k\<in>set keys. override_hyperparameters net k \<noteq> None)
      \<longleftrightarrow> first_present (override_hyperparameters net) keys \<noteq> None"
    by (simp add: first_present_None)
  have df: "(\<exists>k\<in>set keys. default_hyperparameters net k \<noteq> None)
      \<longleftrightarrow> first_present (default_hyperparameters net) keys \<noteq> None"
    by (simp add: first_present_None)
  have ov': "(\<forall>k\<in>set keys. override_hyperparameters net k = None)
      \<longleftrightarrow> first_present (override_hyperparameters net) keys = None"
    by (simp add: first_present_None)
  have df': "(\<forall>k\<in>set keys. default_hyperparameters net k = None)
      \<longleftrightarrow> first_present (default_hyperparameters net) keys = None"
    by (simp add: first_present_None)
  show ?thesis
    unfolding ov df ov' df' find_hyperparameter_cases tier h
    by (cases vs; cases e) (auto split: option.splits)
qed

theorem find_hyperparameter_missing_witness:
  "find_hyperparameter ex_env ex_net ''leaf'' [''zz'', ''yy''] None
     = Inl (MissingHyperparameter [''zz'', ''yy''])
   \<and> (\<exists>v. find_hyperparameter ex_env ex_net ''leaf'' [''zz'', ''batch_axis''] None = Inr v)"
proof -
  have g: "graph ex_net = Some \<lparr>is_mutable = True, internals = [(''mid'', ''leaf'', ''out'', ''in'')]\<rparr>"
    by (simp add: ex_net_def)
  show ?thesis
    using find_hyperparameter_missing [OF g refl, where E = ex_env and keys = "[''zz'', ''yy'']"
        and self_name = "''leaf''"]
      find_hyperparameter_missing [OF g refl, where E = ex_env
        and keys = "[''zz'', ''batch_axis'']" and self_name = "''leaf''"]
    by (simp add: ex_simps)
qed

text \<open>What \<open>set_hyperparameter\<close> stores is what the walk over the chain reads.\<close>

lemma set_hyperparameter_set_value:
  assumes "set_hyperparameter self_name node_name k v net = (net', Inr ())"
  shows "\<exists>st'. node_state net' self_name = Some st'
           \<and> set_value (set_hyperparameters st') node_name k = Some v"
proof (cases "node_state net self_name")
  case None
  with assms show ?thesis by (simp add: set_hyperparameter_def RelativeNetwork_def)
next
  case (Some st)
  let ?m = "case set_hyperparameters st node_name of None \<Rightarrow> Map.empty | Some m \<Rightarrow> m"
  let ?st' = "st\<lparr>set_hyperparameters := (set_hyperparameters st)(node_name \<mapsto> ?m(k \<mapsto> v))\<rparr>"
  from assms Some have "net' = put_state self_name ?st' net"
    by (simp add: set_hyperparameter_def RelativeNetwork_def Let_def)
  then have "node_state net' self_name = Some ?st'"
    by (simp add: put_state_def)
  moreover have "set_value (set_hyperparameters ?st') node_name k = Some v"
    by (simp add: set_value_def)
  ultimately show ?thesis by blast
qed

lemma yield_set_hyperparameters_empty:
  "(\<forall>t\<in>set ts. set_value hps t k = None) \<Longrightarrow> yield_set_hyperparameters hps k ts = []"
  by (induction ts) auto

lemma hierarchy_keys_silent:
  "(\<forall>k\<in>set ks. (\<forall>t\<in>set ds. set_value hps t k = None)
      \<and> (\<exists>ks'. get_hyperparameter E node net k = Inl (MissingHyperparameter ks')))
   \<Longrightarrow> hierarchy_keys E net node hps ds ks = ([], None)"
proof (induction ks)
  case Nil
  show ?case by simp
next
  case (Cons k ks)
  then have "yield_set_hyperparameters hps k ds = []"
    by (simp add: yield_set_hyperparameters_empty)
  moreover from Cons.prems have "yield_provided E net node k = ([], None)"
    by (auto simp: yield_provided_def)
  moreover from Cons have "hierarchy_keys E net node hps ds ks = ([], None)"
    by simp
  ultimately show ?case by simp
qed

lemma closer_node_decides:
  assumes st: "node_state net a = Some st"
    and t: "t \<in> set (pre @ [a])"
    and k: "k \<in> set keys"
    and v: "set_value (set_hyperparameters st) t k = Some v"
  shows "gen_next (hierarchy_nodes E net keys [] (pre @ a # post))
           = gen_next (hierarchy_nodes E net keys [] (pre @ [a]))
         \<and> gen_next (hierarchy_nodes E net keys [] (pre @ a # post)) \<noteq> StopIteration"
proof -
  let ?A = "hierarchy_keys E net a (set_hyperparameters st) (pre @ [a]) keys"
  have A: "gen_next ?A \<noteq> StopIteration"
    using hierarchy_keys_not_exhausted [OF k t v] .
  have one: "hierarchy_nodes E net keys pre (a # rest)
      = gen_append ?A (hierarchy_nodes E net keys (pre @ [a]) rest)" for rest
    using st by (simp add: Let_def)
  have "gen_next (gen_append ?A R) = gen_next ?A" for R
    using A by (simp add: gen_next_append split: next_result.splits)
  then have "gen_next (hierarchy_nodes E net keys pre (a # rest)) = gen_next ?A" for rest
    unfolding one .
  then have "gen_next (hierarchy_nodes E net keys [] (pre @ a # rest))
      = (case gen_next (hierarchy_nodes E net keys [] pre) of
           Yielded v \<Rightarrow> Yielded v | Raised e \<Rightarrow> Raised e | StopIteration \<Rightarrow> gen_next ?A)" for rest
    by (simp add: hierarchy_nodes_append [of E net keys "[]" pre] gen_next_append
        split: next_result.splits del: hierarchy_nodes.simps)
  then show ?thesis
    using A by (simp split: next_result.splits del: hierarchy_nodes.simps)
qed

lemma earlier_key_decides:
  assumes pre: "hierarchy_nodes E net keys [] pre = ([], None)"
    and st: "node_state net a = Some st"
    and keys: "keys = ks_before @ k # ks_after"
    and kb: "\<forall>k'\<in>set ks_before. (\<forall>t'\<in>set (pre @ [a]). set_value (set_hyperparameters st) t' k' = None)
                \<and> (\<exists>ks'. get_hyperparameter E a net k' = Inl (MissingHyperparameter ks'))"
    and ts: "pre @ [a] = ts_before @ t # ts_after"
    and tb: "\<forall>t'\<in>set ts_before. set_value (set_hyperparameters st) t' k = None"
    and v: "set_value (set_hyperparameters st) t k = Some v"
  shows "gen_next (hierarchy_nodes E net keys [] (pre @ a # post)) = Yielded v"
proof -
  let ?hps = "set_hyperparameters st"
  have silent: "hierarchy_keys E net a ?hps (pre @ [a]) ks_before = ([], None)"
    using kb by (rule hierarchy_keys_silent)
  have "yield_set_hyperparameters ?hps k ts_before = []"
    using tb by (rule yield_set_hyperparameters_empty)
  then have "yield_set_hyperparameters ?hps k (pre @ [a])
      = v # yield_set_hyperparameters ?hps k ts_after"
    unfolding ts using v by (rule yield_set_hyperparameters_first)
  then have "gen_next (hierarchy_keys E net a ?hps (pre @ [a]) (k # ks_after)) = Yielded v"
    by (simp add: gen_next_append)
  then have "gen_next (hierarchy_keys E net a ?hps (pre @ [a]) keys) = Yielded v"
    unfolding keys hierarchy_keys_append silent by (simp add: gen_append_empty_left)
  then have "gen_next (hierarchy_nodes E net keys pre (a # post)) = Yielded v"
    using st by (simp add: gen_next_append Let_def)
  then show ?thesis
    by (simp add: hierarchy_nodes_append [of E net keys "[]" pre] pre gen_append_empty_left
        del: hierarchy_nodes.simps)
qed

text \<open>
  C8. Inside the walk over the chain \<open>pre @ a # post\<close> (closest node first):
  \<^item> when the chain node \<open>a\<close> has set a value for any candidate key and any node \<open>t\<close> visited
    so far, the first result of the walk is decided by \<open>pre @ [a]\<close> alone, whatever the
    farther nodes \<open>post\<close> have set and for whichever keys;
  \<^item> when the closer nodes \<open>pre\<close> yield nothing, and \<open>k\<close> is the first candidate key for which
    \<open>a\<close> has anything, the result is the value \<open>a\<close> has set under \<open>k\<close> for the first node
    \<open>t\<close> of the visited prefix that has one: it wins over every value for a later key
    \<open>ks_after\<close>, whichever node that value targets.
\<close>

theorem hierarchy_precedence:
  "(node_state net a = Some st \<and> t \<in> set (pre @ [a]) \<and> k \<in> set keys
      \<and> set_value (set_hyperparameters st) t k = Some v
     \<longrightarrow> gen_next (hierarchy_nodes E net keys [] (pre @ a # post))
           = gen_next (hierarchy_nodes E net keys [] (pre @ [a]))
         \<and> gen_next (hierarchy_nodes E net keys [] (pre @ a # post)) \<noteq> StopIteration)
   \<and> (hierarchy_nodes E net keys [] pre = ([], None) \<and> node_state net a = Some st
        \<and> keys = ks_before @ k # ks_after
        \<and> (\<forall>k'\<in>set ks_before.
              (\<forall>t'\<in>set (pre @ [a]). set_value (set_hyperparameters st) t' k' = None)
              \<and> (\<exists>ks'. get_hyperparameter E a net k' = Inl (MissingHyperparameter ks')))
        \<and> pre @ [a] = ts_before @ t # ts_after
        \<and> (\<forall>t'\<in>set ts_before. set_value (set_hyperparameters st) t' k = None)
        \<and> set_value (set_hyperparameters st) t k = Some v
     \<longrightarrow> gen_next (hierarchy_nodes E net keys [] (pre @ a # post)) = Yielded v)"
  using closer_node_decides [of net a st t pre k keys v E post]
    earlier_key_decides [of E net keys pre a st ks_before k ks_after ts_before t ts_after v post]
  by blast

theorem hierarchy_precedence_witness:
  "gen_next (hierarchy_nodes ex_env ex_net [''k1'', ''k2''] [] [''leaf'', ''mid'', ''root''])
     = gen_next (hierarchy_nodes ex_env ex_net [''k1'', ''k2''] [] [''leaf'', ''mid''])
   \<and> gen_next (hierarchy_nodes ex_env ex_net [''k1'', ''k2''] [] [''leaf'', ''mid'', ''root''])
     \<noteq> StopIteration
   \<and> gen_next (hierarchy_nodes ex_env ex_net [''k1'', ''k3''] [] [''leaf'', ''mid'', ''root''])
     = Yielded (PyInt 11)"
proof -
  have mid: "node_state ex_net ''mid'' = Some (empty_node_state
      \<lparr>set_hyperparameters := [''leaf'' \<mapsto> [''k2'' \<mapsto> PyInt 20]]\<rparr>)"
    by (simp add: ex_net_def)
  have root: "node_state ex_net ''root'' = Some (empty_node_state
      \<lparr>set_hyperparameters :=
         [''mid'' \<mapsto> [''k1'' \<mapsto> PyInt 11], ''leaf'' \<mapsto> [''k3'' \<mapsto> PyInt 30]]\<rparr>)"
    by (simp add: ex_net_def)
  have closer: "hierarchy_nodes ex_env ex_net [''k1'', ''k3''] [] [''leaf'', ''mid''] = ([], None)"
    by (simp add: ex_simps)
  have p1: "gen_next (hierarchy_nodes ex_env ex_net [''k1'', ''k2''] [] ([''leaf''] @ ''mid'' # [''root'']))
      = gen_next (hierarchy_nodes ex_env ex_net [''k1'', ''k2''] [] ([''leaf''] @ [''mid'']))
    \<and> gen_next (hierarchy_nodes ex_env ex_net [''k1'', ''k2''] [] ([''leaf''] @ ''mid'' # [''root'']))
      \<noteq> StopIteration"
    by (rule hierarchy_precedence [where t = "''leaf''" and k = "''k2''" and v = "PyInt 20"
          and st = "empty_node_state\<lparr>set_hyperparameters := [''leaf'' \<mapsto> [''k2'' \<mapsto> PyInt 20]]\<rparr>",
          THEN conjunct1, THEN mp])
       (simp add: mid set_value_def)
  have p2: "gen_next (hierarchy_nodes ex_env ex_net [''k1'', ''k3''] [] ([''leaf'', ''mid''] @ ''root'' # []))
      = Yielded (PyInt 11)"
    by (rule hierarchy_precedence [where t = "''mid''" and k = "''k1''"
          and ks_before = "[]" and ks_after = "[''k3'']" and ts_before = "[''leaf'']" and ts_after = "[''root'']"
          and st = "empty_node_state\<lparr>set_hyperparameters :=
             [''mid'' \<mapsto> [''k1'' \<mapsto> PyInt 11], ''leaf'' \<mapsto> [''k3'' \<mapsto> PyInt 30]]\<rparr>",
          THEN conjunct2, THEN mp])
       (simp add: root closer set_value_def del: hierarchy_nodes.simps)
  from p1 p2 show ?thesis by (auto simp del: hierarchy_nodes.simps)
qed

section \<open>Variables of a node\<close>

lemma create_variable_fails:
  "node_state net self_name = Some st \<Longrightarrow>
   current_variables st name \<noteq> None \<or> original_variables st name \<noteq> None \<Longrightarrow>
   create_variable E self_name name kwargs net = (net, Inl AssertionError)"
  by (auto simp: create_variable_def RelativeNetwork_def)

lemma create_variable_success:
  assumes "create_variable E self_name name kwargs net = (net', Inr variable)"
  shows "\<exists>st. node_state net self_name = Some st
           \<and> current_variables st name = None \<and> original_variables st name = None
           \<and> VariableWrapper E (self_name @ '':'' @ name) self_name kwargs = Inr variable
           \<and> net' = put_state self_name
                 (st\<lparr>current_variables := (current_variables st)(name \<mapsto> variable),
                     original_variables := (original_variables st)(name \<mapsto> variable)\<rparr>) net"
  using assms
  by (auto simp: create_variable_def RelativeNetwork_def split: option.splits sum.splits if_splits)

text \<open>
  C5. \<open>create_variable(name, ...)\<close> fails when \<open>name\<close> is in the node's
  \<open>current_variables\<close> or in its \<open>original_variables\<close>. When it succeeds, \<open>name\<close> was in
  neither, the variable it returns is the one the constructor made for
  \<open>node_name:name\<close> and is stored under \<open>name\<close> in both dicts, and a second
  \<open>create_variable\<close> with the same name on the same node fails whatever its arguments.
\<close>

theorem create_variable_unique:
  "(node_state net self_name = Some st
      \<and> (current_variables st name \<noteq> None \<or> original_variables st name \<noteq> None)
     \<longrightarrow> create_variable E self_name name kwargs net = (net, Inl AssertionError))
   \<and> (create_variable E self_name name kwargs net = (net', Inr variable)
     \<longrightarrow> (\<exists>st0 st'. node_state net self_name = Some st0
            \<and> current_variables st0 name = None \<and> original_variables st0 name = None
            \<and> VariableWrapper E (self_name @ '':'' @ name) self_name kwargs = Inr variable
            \<and> node_state net' self_name = Some st'
            \<and> current_variables st' name = Some variable
            \<and> original_variables st' name = Some variable)
         \<and> create_variable E self_name name kwargs' net' = (net', Inl AssertionError))"
proof (intro conjI impI)
  assume "node_state net self_name = Some st
      \<and> (current_variables st name \<noteq> None \<or> original_variables st name \<noteq> None)"
  then show "create_variable E self_name name kwargs net = (net, Inl AssertionError)"
    using create_variable_fails by blast
next
  assume ok: "create_variable E self_name name kwargs net = (net', Inr variable)"
  from create_variable_success [OF ok] obtain st0 where
    st0: "node_state net self_name = Some st0"
      "current_variables st0 name = None" "original_variables st0 name = None"
      "VariableWrapper E (self_name @ '':'' @ name) self_name kwargs = Inr variable"
    and net': "net' = put_state self_name
        (st0\<lparr>current_variables := (current_variables st0)(name \<mapsto> variable),
            original_variables := (original_variables st0)(name \<mapsto> variable)\<rparr>) net"
    by blast
  let ?st' = "st0\<lparr>current_variables := (current_variables st0)(name \<mapsto> variable),
            original_variables := (original_variables st0)(name \<mapsto> variable)\<rparr>"
  have st': "node_state net' self_name = Some ?st'"
    by (simp add: net' put_state_def)
  show "\<exists>st0 st'. node_state net self_name = Some st0
            \<and> current_variables st0 name = None \<and> original_variables st0 name = None
            \<and> VariableWrapper E (self_name @ '':'' @ name) self_name kwargs = Inr variable
            \<and> node_state net' self_name = Some st'
            \<and> current_variables st' name = Some variable
            \<and> original_variables st' name = Some variable"
    using st0 st' by simp
  show "create_variable E self_name name kwargs' net' = (net', Inl AssertionError)"
    by (rule create_variable_fails [OF st']) simp
qed

theorem create_variable_unique_witness:
  "snd (create_variable ex_env ''leaf'' ''W'' [] ex_net) = Inr ''leaf:W''
   \<and> snd (create_variable ex_env ''leaf'' ''W'' [(''shape'', PyInt 3)]
            (fst (create_variable ex_env ''leaf'' ''W'' [] ex_net))) = Inl AssertionError"
proof -
  have first: "snd (create_variable ex_env ''leaf'' ''W'' [] ex_net) = Inr ''leaf:W''"
    by (simp add: create_variable_def RelativeNetwork_def put_state_def ex_simps)
  then have ok: "create_variable ex_env ''leaf'' ''W'' [] ex_net
      = (fst (create_variable ex_env ''leaf'' ''W'' [] ex_net), Inr ''leaf:W'')"
    by (metis prod.collapse)
  have second: "create_variable ex_env ''leaf'' ''W'' [(''shape'', PyInt 3)]
        (fst (create_variable ex_env ''leaf'' ''W'' [] ex_net))
      = (fst (create_variable ex_env ''leaf'' ''W'' [] ex_net), Inl AssertionError)"
    using create_variable_unique [where E = ex_env and self_name = "''leaf''" and name = "''W''"
      and kwargs = "[]" and net = ex_net and variable = "''leaf:W''"
      and net' = "fst (create_variable ex_env ''leaf'' ''W'' [] ex_net)"
      and kwargs' = "[(''shape'', PyInt 3)]", THEN conjunct2, THEN mp, OF ok]
    by (rule conjunct2)
  show ?thesis
    unfolding first second by simp
qed

text \<open>
  C6. \<open>replace_variable(name, new_variable)\<close> fails when \<open>name\<close> is not in the node's
  \<open>original_variables\<close>. Otherwise it returns \<open>new_variable\<close> and changes
  \<open>current_variables[name]\<close> only: every other entry of \<open>current_variables\<close>, the whole of
  \<open>original_variables\<close>, the node's other state, the state of every other node and the
  rest of the network are as before. After \<open>create_variable\<close> and then
  \<open>replace_variable\<close> under one name, \<open>original_variables\<close> holds the created variable
  and \<open>current_variables\<close> the replacement.
\<close>

theorem replace_variable_frame:
  "(node_state net self_name = Some st \<and> original_variables st name = None
     \<longrightarrow> replace_variable self_name name new_variable net = (net, Inl AssertionError))
   \<and> (node_state net self_name = Some st \<and> original_variables st name = Some first
        \<and> replace_variable self_name name new_variable net = (net', r)
     \<longrightarrow> r = Inr new_variable
         \<and> (\<exists>st'. node_state net' self_name = Some st'
               \<and> current_variables st' name = Some new_variable
               \<and> (\<forall>k. k \<noteq> name \<longrightarrow> current_variables st' k = current_variables st k)
               \<and> original_variables st' = original_variables st
               \<and> original_variables st' name = Some first
               \<and> additional_data st' = additional_data st
               \<and> set_hyperparameters st' = set_hyperparameters st
               \<and> inputs st' = inputs st)
         \<and> (\<forall>n. n \<noteq> self_name \<longrightarrow> node_state net' n = node_state net n)
         \<and> net'\<lparr>node_state := node_state net\<rparr> = net)
   \<and> (create_variable E self_name name kwargs net = (net_created, Inr first)
        \<and> replace_variable self_name name new_variable net_created = (net_replaced, r)
     \<longrightarrow> r = Inr new_variable
         \<and> (\<exists>st2. node_state net_replaced self_name = Some st2
               \<and> original_variables st2 name = Some first
               \<and> current_variables st2 name = Some new_variable))"
proof (intro conjI impI)
  assume "node_state net self_name = Some st \<and> original_variables st name = None"
  then show "replace_variable self_name name new_variable net = (net, Inl AssertionError)"
    by (simp add: replace_variable_def RelativeNetwork_def)
next
  assume a: "node_state net self_name = Some st \<and> original_variables st name = Some first
        \<and> replace_variable self_name name new_variable net = (net', r)"
  then have r: "r = Inr new_variable"
    and net': "net' = put_state self_name
        (st\<lparr>current_variables := (current_variables st)(name \<mapsto> new_variable)\<rparr>) net"
    by (auto simp: replace_variable_def RelativeNetwork_def)
  show "r = Inr new_variable" by (rule r)
  show "\<exists>st'. node_state net' self_name = Some st'
               \<and> current_variables st' name = Some new_variable
               \<and> (\<forall>k. k \<noteq> name \<longrightarrow> current_variables st' k = current_variables st k)
               \<and> original_variables st' = original_variables st
               \<and> original_variables st' name = Some first
               \<and> additional_data st' = additional_data st
               \<and> set_hyperparameters st' = set_hyperparameters st
               \<and> inputs st' = inputs st"
    using a by (simp add: net' put_state_def)
  show "\<forall>n. n \<noteq> self_name \<longrightarrow> node_state net' n = node_state net n"
    by (simp add: net' put_state_def)
  show "net'\<lparr>node_state := node_state net\<rparr> = net"
    by (simp add: net' put_state_def)
next
  assume a: "create_variable E self_name name kwargs net = (net_created, Inr first)
        \<and> replace_variable self_name name new_variable net_created = (net_replaced, r)"
  from create_variable_success [OF a [THEN conjunct1]] obtain st0 where
    net_created: "net_created = put_state self_name
        (st0\<lparr>current_variables := (current_variables st0)(name \<mapsto> first),
            original_variables := (original_variables st0)(name \<mapsto> first)\<rparr>) net"
    by blast
  from a have "replace_variable self_name name new_variable net_created = (net_replaced, r)" by simp
  then have r: "r = Inr new_variable"
    and net_replaced: "node_state net_replaced self_name = Some
        (st0\<lparr>current_variables := (current_variables st0)(name \<mapsto> new_variable),
            original_variables := (original_variables st0)(name \<mapsto> first)\<rparr>)"
    by (auto simp: replace_variable_def RelativeNetwork_def net_created put_state_def)
  show "r = Inr new_variable" by (rule r)
  show "\<exists>st2. node_state net_replaced self_name = Some st2
               \<and> original_variables st2 name = Some first
               \<and> current_variables st2 name = Some new_variable"
    by (simp add: net_replaced)
qed

theorem replace_variable_frame_witness:
  "replace_variable ''leaf'' ''W'' ''scan:W'' ex_net = (ex_net, Inl AssertionError)
   \<and> snd (replace_variable ''leaf'' ''W'' ''scan:W''
            (fst (create_variable ex_env ''leaf'' ''W'' [] ex_net))) = Inr ''scan:W''
   \<and> (\<exists>st2. node_state
               (fst (replace_variable ''leaf'' ''W'' ''scan:W''
                      (fst (create_variable ex_env ''leaf'' ''W'' [] ex_net)))) ''leaf''
             = Some st2
          \<and> original_variables st2 ''W'' = Some ''leaf:W''
          \<and> current_variables st2 ''W'' = Some ''scan:W'')"
proof -
  let ?net1 = "fst (create_variable ex_env ''leaf'' ''W'' [] ex_net)"
  let ?res = "replace_variable ''leaf'' ''W'' ''scan:W'' ?net1"
  have leaf: "node_state ex_net ''leaf'' = Some empty_node_state
      \<and> original_variables (empty_node_state :: string node_state) ''W'' = None"
    by (simp add: ex_net_def empty_node_state_def)
  have fails: "replace_variable ''leaf'' ''W'' ''scan:W'' ex_net = (ex_net, Inl AssertionError)"
    using replace_variable_frame [where net = ex_net and self_name = "''leaf''"
        and st = empty_node_state and name = "''W''" and new_variable = "''scan:W''",
        THEN conjunct1, THEN mp, OF leaf] .
  have "snd (create_variable ex_env ''leaf'' ''W'' [] ex_net) = Inr ''leaf:W''"
    by (simp add: create_variable_def RelativeNetwork_def put_state_def ex_simps)
  then have created: "create_variable ex_env ''leaf'' ''W'' [] ex_net = (?net1, Inr ''leaf:W'')"
    by (metis prod.collapse)
  have replaced: "?res = (fst ?res, snd ?res)"
    by simp
  have "snd ?res = Inr ''scan:W''
     \<and> (\<exists>st2. node_state (fst ?res) ''leaf'' = Some st2
          \<and> original_variables st2 ''W'' = Some ''leaf:W''
          \<and> current_variables st2 ''W'' = Some ''scan:W'')"
    using replace_variable_frame [where E = ex_env and self_name = "''leaf''" and name = "''W''"
        and kwargs = "[]" and net = ex_net and first = "''leaf:W''" and net_created = ?net1
        and new_variable = "''scan:W''" and net_replaced = "fst ?res" and r = "snd ?res",
        THEN conjunct2, THEN conjunct2, THEN mp, OF conjI, OF created replaced] .
  with fails show ?thesis by blast
qed

section \<open>Forwarding an input\<close>

lemma add_dependency_built:
  "graph net = Some g \<Longrightarrow>
   add_dependency E from_name to_name from_key to_key net =
     (case graph_add_dependency E from_name to_name from_key to_key g of
        Inl e \<Rightarrow> (net, Inl e)
      | Inr g' \<Rightarrow> (net\<lparr>graph := Some g'\<rparr>, Inr ()))"
  by (simp add: add_dependency_def and_then_def the_graph_def)

lemma forward_input_to_built:
  "graph net = Some g \<Longrightarrow>
   forward_input_to E self_name node_name previous_to_key to_key ignore_no_input net =
     (case input_edge_for_node E g self_name previous_to_key of
        None \<Rightarrow>
          if \<not> ignore_no_input
          then (net, Inl (ValueError (''forward_input_to called on node without input key: ''
                                       @ previous_to_key)))
          else (net, Inr ())
      | Some (name_from, from_key) \<Rightarrow> add_dependency E name_from node_name from_key to_key net)"
  by (simp add: forward_input_to_def and_then_def the_graph_def raise_def succeed_def
      split: option.splits)

text \<open>
  C7. On a built network, \<open>forward_input_to\<close> called on a node whose port
  \<open>previous_to_key\<close> has no incoming edge changes nothing and returns when
  \<open>ignore_no_input\<close> is true, as it is by default, and raises \<open>ValueError\<close> (changing
  nothing) when it is false. When the port has the incoming edge
  \<open>(name_from, from_key)\<close>, the call is \<open>add_dependency(name_from, node_name, from_key,
  to_key)\<close>: on a mutable graph where the edge closes no cycle, that edge is inserted.
\<close>

theorem forward_input_to_cases:
  "graph net = Some g \<longrightarrow>
     (input_edge_for_node E g self_name previous_to_key = None \<longrightarrow>
        forward_input_to E self_name node_name previous_to_key to_key True net = (net, Inr ())
        \<and> forward_input_to E self_name node_name previous_to_key to_key False net
            = (net, Inl (ValueError (''forward_input_to called on node without input key: ''
                                       @ previous_to_key))))
     \<and> (input_edge_for_node E g self_name ''default'' = None \<longrightarrow>
          forward_input_to_defaults E self_name node_name net = (net, Inr ()))
     \<and> (input_edge_for_node E g self_name previous_to_key = Some (name_from, from_key) \<longrightarrow>
          forward_input_to E self_name node_name previous_to_key to_key ignore_no_input net
            = add_dependency E name_from node_name from_key to_key net
          \<and> (is_mutable g \<and> \<not> creates_cycle E (internals g) name_from node_name \<longrightarrow>
               forward_input_to E self_name node_name previous_to_key to_key ignore_no_input net
                 = (net\<lparr>graph := Some (g\<lparr>internals :=
                       insert_edge E (internals g) name_from node_name from_key to_key\<rparr>)\<rparr>,
                    Inr ())))"
  by (simp add: forward_input_to_built forward_input_to_defaults_def add_dependency_built
      graph_add_dependency_def)

theorem forward_input_to_cases_witness:
  "forward_input_to ex_env ''mid'' ''leaf'' ''in'' ''in'' True ex_net = (ex_net, Inr ())
   \<and> snd (forward_input_to ex_env ''mid'' ''leaf'' ''in'' ''in'' False ex_net)
       = Inl (ValueError ''forward_input_to called on node without input key: in'')
   \<and> forward_input_to_defaults ex_env ''mid'' ''leaf'' ex_net = (ex_net, Inr ())
   \<and> snd (forward_input_to ex_env ''leaf'' ''root'' ''in'' ''extra'' True ex_net) = Inr ()
   \<and> map_option internals
        (graph (fst (forward_input_to ex_env ''leaf'' ''root'' ''in'' ''extra'' True ex_net)))
       = Some [(''mid'', ''leaf'', ''out'', ''in''), (''mid'', ''root'', ''out'', ''extra'')]"
proof -
  let ?g = "\<lparr>is_mutable = True, internals = [(''mid'', ''leaf'', ''out'', ''in'')]\<rparr>"
  have g: "graph ex_net = Some ?g"
    by (simp add: ex_net_def)
  have none: "input_edge_for_node ex_env ?g ''mid'' ''in'' = None"
    and none_default: "input_edge_for_node ex_env ?g ''mid'' ''default'' = None"
    and some: "input_edge_for_node ex_env ?g ''leaf'' ''in'' = Some (''mid'', ''out'')"
    and ok: "is_mutable ?g \<and> \<not> creates_cycle ex_env (internals ?g) ''mid'' ''root''"
    by (simp_all add: ex_env_def ex_env0_def)
  note a = forward_input_to_cases [where E = ex_env and net = ex_net and g = ?g
      and self_name = "''mid''" and node_name = "''leaf''" and previous_to_key = "''in''"
      and to_key = "''in''", THEN mp, OF g]
  note b = forward_input_to_cases [where E = ex_env and net = ex_net and g = ?g
      and self_name = "''leaf''" and node_name = "''root''" and previous_to_key = "''in''"
      and to_key = "''extra''" and name_from = "''mid''" and from_key = "''out''"
      and ignore_no_input = True, THEN mp, OF g]
  from a none none_default
  have 1: "forward_input_to ex_env ''mid'' ''leaf'' ''in'' ''in'' True ex_net = (ex_net, Inr ())"
    and 2: "forward_input_to ex_env ''mid'' ''leaf'' ''in'' ''in'' False ex_net
       = (ex_net, Inl (ValueError (''forward_input_to called on node without input key: '' @ ''in'')))"
    and 3: "forward_input_to_defaults ex_env ''mid'' ''leaf'' ex_net = (ex_net, Inr ())"
    by blast+
  from b some ok
  have 4: "forward_input_to ex_env ''leaf'' ''root'' ''in'' ''extra'' True ex_net
      = (ex_net\<lparr>graph := Some (?g\<lparr>internals :=
            insert_edge ex_env (internals ?g) ''mid'' ''root'' ''out'' ''extra''\<rparr>)\<rparr>, Inr ())"
    by blast
  show ?thesis
    unfolding 1 2 3 4 by (simp add: ex_env_def ex_env0_def)
qed

section \<open>Building: the calls of \<open>build\<close> to itself\<close>

lemma and_then_Inl: "m s = (s1, Inl e) \<Longrightarrow> and_then m f s = (s1, Inl e)"
  by (simp add: and_then_def)

lemma and_then_Inr: "m s = (s1, Inr a) \<Longrightarrow> and_then m f s = f a s1"
  by (simp add: and_then_def)

lemma and_then_cases:
  assumes "and_then m f s = (s', r)"
  obtains (raised) e where "m s = (s', Inl e)" "r = Inl e"
  | (returned) s1 a where "m s = (s1, Inr a)" "f a s1 = (s', r)"
proof (cases "m s")
  case (Pair s1 x)
  show ?thesis
  proof (cases x)
    case (Inl e)
    with Pair assms have "s' = s1" "r = Inl e" by (simp_all add: and_then_def)
    with Pair Inl raised show ?thesis by simp
  next
    case (Inr a)
    with Pair assms have "f a s1 = (s', r)" by (simp add: and_then_def)
    with Pair Inr returned show ?thesis by simp
  qed
qed

lemma relative_network_succeed:
  "relative_network (succeed ()) node s =
     (s, case RelativeNetwork (snd s) node of Inl e \<Rightarrow> Inl e | Inr _ \<Rightarrow> Inr node)"
  by (simp add: relative_network_def and_then_def succeed_def split: sum.splits)

lemma and_then_state:
  assumes "\<And>s. fst (m s) = s" and "\<And>a s. fst (f a s) = s"
  shows "fst (and_then m f s) = s"
proof (cases "m s")
  case (Pair s1 x)
  with assms(1) [of s] have "s1 = s" by simp
  with Pair assms(2) show ?thesis by (cases x) (simp_all add: and_then_def)
qed

lemma succeed_state: "fst (succeed a s) = s"
  by (simp add: succeed_def)

lemma raise_state: "fst (raise e s) = s"
  by (simp add: raise_def)

lemma the_graph_state: "fst (on_network the_graph s) = s"
  by (simp add: on_network_def the_graph_def split: option.splits)

lemma get_variable_state: "fst (on_network (get_variable rel k) s) = s"
  by (simp add: on_network_def get_variable_def RelativeNetwork_def split: option.splits)

lemma relative_network_succeed_state: "fst (relative_network (succeed ()) node s) = s"
  by (simp add: relative_network_succeed)

lemma getitem_succeed_state: "fst (getitem (succeed ()) E node_name s) = s"
  unfolding getitem_def
  by (intro and_then_state succeed_state the_graph_state)
     (simp add: raise_state relative_network_succeed_state split: option.splits)

lemma lookup_inputs_succeed_state: "fst (lookup_inputs (succeed ()) E node ks s) = s"
proof (induction ks arbitrary: s)
  case Nil
  show ?case by (simp add: succeed_state)
next
  case (Cons k ks)
  have tail: "fst (and_then (getitem (succeed ()) E node_name) (\<lambda>rel.
           and_then (on_network (get_variable rel from_key)) (\<lambda>v.
           and_then (lookup_inputs (succeed ()) E node ks) (\<lambda>vs.
           succeed (v # vs)))) s') = s'" for node_name from_key s'
    by (intro and_then_state getitem_succeed_state get_variable_state Cons.IH succeed_state)
  show ?case
    unfolding lookup_inputs.simps
    by (intro and_then_state the_graph_state)
       (simp add: raise_state tail split: option.splits prod.splits)
qed

lemma and_then_cong_at:
  assumes "ma s = mb s" and "\<And>s1 a. mb s = (s1, Inr a) \<Longrightarrow> fa a s1 = fb a s1"
  shows "and_then ma fa s = and_then mb fb s"
proof (cases "mb s")
  case (Pair s1 x)
  with assms show ?thesis by (cases x) (simp_all add: and_then_def)
qed

lemma relative_network_at_once:
  "returns_at_once rb \<Longrightarrow> is_built (snd s) \<Longrightarrow>
   relative_network rb node s = relative_network (succeed ()) node s"
proof -
  assume "returns_at_once rb" and "is_built (snd s)"
  then have "rb s = succeed () s"
    unfolding returns_at_once_def succeed_def by blast
  then show ?thesis
    by (simp add: relative_network_def and_then_def)
qed

lemma getitem_at_once:
  assumes "returns_at_once rb" and "is_built (snd s)"
  shows "getitem rb E node_name s = getitem (succeed ()) E node_name s"
proof -
  have rb: "rb s = succeed () s"
    using assms unfolding returns_at_once_def succeed_def by blast
  show ?thesis
    unfolding getitem_def
  proof (rule and_then_cong_at [where ma = rb and mb = "succeed ()"])
    show "rb s = succeed () s" by (rule rb)
  next
    fix s1 a assume "succeed () s = (s1, Inr (a::unit))"
    then have s1: "s1 = s" by (simp add: succeed_def)
    show "and_then (on_network the_graph)
            (\<lambda>g. case name_to_node E g node_name of
                  None \<Rightarrow> raise (KeyError node_name)
                | Some node \<Rightarrow> relative_network rb node) s1
        = and_then (on_network the_graph)
            (\<lambda>g. case name_to_node E g node_name of
                  None \<Rightarrow> raise (KeyError node_name)
                | Some node \<Rightarrow> relative_network (succeed ()) node) s1"
    proof (rule and_then_cong_at [OF refl])
      fix s2 g assume "on_network the_graph s1 = (s2, Inr g)"
      then have "s2 = s" using the_graph_state [of s1] s1 by simp
      then show "(case name_to_node E g node_name of
                    None \<Rightarrow> raise (KeyError node_name)
                  | Some node \<Rightarrow> relative_network rb node) s2
          = (case name_to_node E g node_name of
                    None \<Rightarrow> raise (KeyError node_name)
                  | Some node \<Rightarrow> relative_network (succeed ()) node) s2"
        using assms by (simp add: relative_network_at_once split: option.splits)
    qed
  qed
qed

lemma lookup_inputs_at_once:
  assumes "returns_at_once rb"
  shows "is_built (snd s) \<Longrightarrow>
         lookup_inputs rb E node ks s = lookup_inputs (succeed ()) E node ks s"
proof (induction ks arbitrary: s)
  case Nil
  show ?case by simp
next
  case (Cons k ks)
  show ?case
    unfolding lookup_inputs.simps
  proof (rule and_then_cong_at [OF refl])
    fix s1 g assume "on_network the_graph s = (s1, Inr g)"
    then have s1: "s1 = s" using the_graph_state [of s] by simp
    show "(case input_edge_for_node E g node k of
             None \<Rightarrow> raise TypeError
           | Some (node_name, from_key) \<Rightarrow>
               and_then (getitem rb E node_name) (\<lambda>rel.
               and_then (on_network (get_variable rel from_key)) (\<lambda>v.
               and_then (lookup_inputs rb E node ks) (\<lambda>vs. succeed (v # vs))))) s1
        = (case input_edge_for_node E g node k of
             None \<Rightarrow> raise TypeError
           | Some (node_name, from_key) \<Rightarrow>
               and_then (getitem (succeed ()) E node_name) (\<lambda>rel.
               and_then (on_network (get_variable rel from_key)) (\<lambda>v.
               and_then (lookup_inputs (succeed ()) E node ks) (\<lambda>vs. succeed (v # vs))))) s1"
    proof (cases "input_edge_for_node E g node k")
      case None
      then show ?thesis by simp
    next
      case (Some edge)
      obtain node_name from_key where edge: "edge = (node_name, from_key)" by (cases edge)
      have "and_then (getitem rb E node_name) (\<lambda>rel.
               and_then (on_network (get_variable rel from_key)) (\<lambda>v.
               and_then (lookup_inputs rb E node ks) (\<lambda>vs. succeed (v # vs)))) s
          = and_then (getitem (succeed ()) E node_name) (\<lambda>rel.
               and_then (on_network (get_variable rel from_key)) (\<lambda>v.
               and_then (lookup_inputs (succeed ()) E node ks) (\<lambda>vs. succeed (v # vs)))) s"
      proof (rule and_then_cong_at [where ma = "getitem rb E node_name"
            and mb = "getitem (succeed ()) E node_name"])
        show "getitem rb E node_name s = getitem (succeed ()) E node_name s"
          using assms Cons.prems by (rule getitem_at_once)
      next
        fix s2 rel assume "getitem (succeed ()) E node_name s = (s2, Inr rel)"
        then have s2: "s2 = s" using getitem_succeed_state [of E node_name s] by simp
        show "and_then (on_network (get_variable rel from_key)) (\<lambda>v.
               and_then (lookup_inputs rb E node ks) (\<lambda>vs. succeed (v # vs))) s2
            = and_then (on_network (get_variable rel from_key)) (\<lambda>v.
               and_then (lookup_inputs (succeed ()) E node ks) (\<lambda>vs. succeed (v # vs))) s2"
        proof (rule and_then_cong_at [OF refl])
          fix s3 v assume "on_network (get_variable rel from_key) s2 = (s3, Inr v)"
          then have "s3 = s" using get_variable_state [of rel from_key s2] s2 by simp
          then show "and_then (lookup_inputs rb E node ks) (\<lambda>vs. succeed (v # vs)) s3
              = and_then (lookup_inputs (succeed ()) E node ks) (\<lambda>vs. succeed (v # vs)) s3"
            using Cons.IH [OF Cons.prems] by (simp add: and_then_def)
        qed
      qed
      with Some edge s1 show ?thesis by simp
    qed
  qed
qed

section \<open>Building: what each phase appends to the log\<close>

lemma store_inputs_graph: "graph (fst (store_inputs rel ins net)) = graph net"
  by (simp add: store_inputs_def put_state_def split: sum.splits)

lemma on_network_log: "fst (fst (on_network m s)) = fst s"
  by (simp add: on_network_def split: prod.splits)

lemma on_network_store_inputs_graph:
  "graph (snd (fst (on_network (store_inputs rel ins) s))) = graph (snd s)"
  using store_inputs_graph [of rel ins "snd s"]
  by (cases "store_inputs rel ins (snd s)") (simp add: on_network_def)

lemma apply_effect_graph: "graph (apply_effect net eff) = Some (fst eff)"
  by (cases eff) (simp add: apply_effect_def)

lemma call_hook_built: "is_built (snd (fst (call_hook h node f s)))"
  by (simp add: call_hook_def apply_effect_def is_built_def split: prod.splits)

lemma call_hook_result:
  "call_hook h node f s =
     ((fst s @ [Call h node (map_option is_mutable (graph (snd s))) (snd (f (snd s)))],
       apply_effect (snd s) (fst (f (snd s)))),
      snd (f (snd s)))"
  by (simp add: call_hook_def split: prod.splits)

lemma compute_node_succeed_cases:
  assumes "compute_node (succeed ()) E node s = (s', r)"
  shows "(fst s' = fst s \<and> graph (snd s') = graph (snd s) \<and> (\<exists>e. r = Inl e))
       \<or> (\<exists>ins s1. fst s1 = fst s \<and> graph (snd s1) = graph (snd s)
             \<and> s' = fst (call_hook ComputeOutput node (compute_output E node ins) s1)
             \<and> r = (case snd (compute_output E node ins (snd s1)) of
                      Inl e \<Rightarrow> Inl e
                    | Inr v \<Rightarrow> if v = PyNone then Inr () else Inl AssertionError))"
  using assms unfolding compute_node_def
proof (cases rule: and_then_cases)
  case (raised e)
  then have "s' = s" using relative_network_succeed_state [of node s] by simp
  with raised show ?thesis by simp
next
  case (returned s1 rel)
  then have s1: "s1 = s" and rel: "rel = node"
    by (auto simp: relative_network_succeed split: sum.splits)
  from returned(2) show ?thesis
  proof (cases rule: and_then_cases)
    case (raised e)
    with s1 show ?thesis by auto
  next
    case (returned s2 input_keys)
    then have s2: "s2 = s" using s1 by auto
    from returned(2) show ?thesis
    proof (cases rule: and_then_cases)
      case (raised e)
      then have "s' = s" using lookup_inputs_succeed_state [of E node input_keys s2] s2 by simp
      with raised show ?thesis by simp
    next
      case (returned s3 ins)
      then have s3: "s3 = s"
        using lookup_inputs_succeed_state [of E node input_keys s2] s2 by simp
      from returned(2) show ?thesis
      proof (cases rule: and_then_cases)
        case (raised e)
        then have "fst s' = fst s" "graph (snd s') = graph (snd s)"
          using on_network_log [of "store_inputs rel (dict_zip input_keys ins)" s3]
            on_network_store_inputs_graph [of rel "dict_zip input_keys ins" s3] s3
          by simp_all
        with raised show ?thesis by simp
      next
        case (returned s4 u)
        then have s4: "fst s4 = fst s" "graph (snd s4) = graph (snd s)"
          using on_network_log [of "store_inputs rel (dict_zip input_keys ins)" s3]
            on_network_store_inputs_graph [of rel "dict_zip input_keys ins" s3] s3
          by simp_all
        let ?call = "call_hook ComputeOutput node (compute_output E node ins)"
        let ?out = "snd (compute_output E node ins (snd s4))"
        have call: "?call s4 = (fst (?call s4), ?out)"
          by (simp add: call_hook_result)
        from returned(2) have "s' = fst (?call s4)
            \<and> r = (case ?out of
                      Inl e \<Rightarrow> Inl e
                    | Inr v \<Rightarrow> if v = PyNone then Inr () else Inl AssertionError)"
          by (cases ?out)
             (auto simp: and_then_def call_hook_result succeed_def raise_def)
        with s4 show ?thesis by blast
      qed
    qed
  qed
qed

lemma compute_node_at_once:
  assumes "returns_at_once rb" and "is_built (snd s)"
  shows "compute_node rb E node s = compute_node (succeed ()) E node s"
  unfolding compute_node_def
proof (rule and_then_cong_at [where ma = "relative_network rb node"
      and mb = "relative_network (succeed ()) node"])
  show "relative_network rb node s = relative_network (succeed ()) node s"
    using assms by (rule relative_network_at_once)
next
  fix s1 rel_network
  assume "relative_network (succeed ()) node s = (s1, Inr rel_network)"
  then have s1: "s1 = s" using relative_network_succeed_state [of node s] by simp
  show "and_then (\<lambda>s. (s, get_input_keys E node (snd s))) (\<lambda>input_keys.
          and_then (lookup_inputs rb E node input_keys) (\<lambda>ins.
          and_then (on_network (store_inputs rel_network (dict_zip input_keys ins))) (\<lambda>_.
          and_then (call_hook ComputeOutput node (compute_output E node ins)) (\<lambda>output_res.
            if output_res = PyNone then succeed () else raise AssertionError)))) s1
      = and_then (\<lambda>s. (s, get_input_keys E node (snd s))) (\<lambda>input_keys.
          and_then (lookup_inputs (succeed ()) E node input_keys) (\<lambda>ins.
          and_then (on_network (store_inputs rel_network (dict_zip input_keys ins))) (\<lambda>_.
          and_then (call_hook ComputeOutput node (compute_output E node ins)) (\<lambda>output_res.
            if output_res = PyNone then succeed () else raise AssertionError)))) s1"
  proof (rule and_then_cong_at [OF refl])
    fix s2 input_keys
    assume "(s1, get_input_keys E node (snd s1)) = (s2, Inr input_keys)"
    then have "s2 = s" using s1 by simp
    then have "lookup_inputs rb E node input_keys s2
        = lookup_inputs (succeed ()) E node input_keys s2"
      using assms by (simp add: lookup_inputs_at_once)
    then show "and_then (lookup_inputs rb E node input_keys) (\<lambda>ins.
          and_then (on_network (store_inputs rel_network (dict_zip input_keys ins))) (\<lambda>_.
          and_then (call_hook ComputeOutput node (compute_output E node ins)) (\<lambda>output_res.
            if output_res = PyNone then succeed () else raise AssertionError))) s2
      = and_then (lookup_inputs (succeed ()) E node input_keys) (\<lambda>ins.
          and_then (on_network (store_inputs rel_network (dict_zip input_keys ins))) (\<lambda>_.
          and_then (call_hook ComputeOutput node (compute_output E node ins)) (\<lambda>output_res.
            if output_res = PyNone then succeed () else raise AssertionError))) s2"
      by (simp add: and_then_def)
  qed
qed

lemma compute_node_built:
  assumes "compute_node (succeed ()) E node s = (s', r)" and "is_built (snd s)"
  shows "is_built (snd s')"
  using compute_node_succeed_cases [OF assms(1)]
proof (elim disjE exE conjE)
  assume "graph (snd s') = graph (snd s)"
  with assms(2) show ?thesis by (simp add: is_built_def)
next
  fix ins s1
  assume "s' = fst (call_hook ComputeOutput node (compute_output E node ins) s1)"
  then show ?thesis by (simp add: call_hook_built)
qed

lemma compute_node_frozen:
  assumes "compute_node (succeed ()) E node s = (s', r)"
    and "keeps_frozen E" and "frozen (snd s)"
  shows "frozen (snd s')"
  using compute_node_succeed_cases [OF assms(1)]
proof (elim disjE exE conjE)
  assume "graph (snd s') = graph (snd s)"
  with assms(3) show ?thesis by (simp add: frozen_def)
next
  fix ins s1
  assume g: "graph (snd s1) = graph (snd s)"
    and s': "s' = fst (call_hook ComputeOutput node (compute_output E node ins) s1)"
  from g assms(3) have "frozen (snd s1)" by (simp add: frozen_def)
  with assms(2) have "\<not> is_mutable (fst (fst (compute_output E node ins (snd s1))))"
    unfolding keeps_frozen_def by blast
  then show ?thesis
    by (simp add: s' call_hook_result apply_effect_graph frozen_def)
qed

text \<open>The entries one pass of the output phase's loop body appends.\<close>

lemma compute_node_log:
  assumes "compute_node (succeed ()) E node s = (s', r)"
  shows "(fst s' = fst s \<and> (\<exists>e. r = Inl e))
       \<or> (\<exists>out. fst s' = fst s @ [Call ComputeOutput node (map_option is_mutable (graph (snd s))) out]
             \<and> r = (case out of
                      Inl e \<Rightarrow> Inl e
                    | Inr v \<Rightarrow> if v = PyNone then Inr () else Inl AssertionError))"
  using compute_node_succeed_cases [OF assms]
proof (elim disjE exE conjE)
  fix e assume "fst s' = fst s" "r = Inl e"
  then show ?thesis by simp
next
  fix ins s1
  assume "fst s1 = fst s" "graph (snd s1) = graph (snd s)"
    "s' = fst (call_hook ComputeOutput node (compute_output E node ins) s1)"
    "r = (case snd (compute_output E node ins (snd s1)) of
            Inl e \<Rightarrow> Inl e
          | Inr v \<Rightarrow> if v = PyNone then Inr () else Inl AssertionError)"
  then show ?thesis by (simp add: call_hook_result)
qed

lemma for_each_inv:
  assumes step: "\<And>x s s' r. I s \<Longrightarrow> body x s = (s', r) \<Longrightarrow> I s'"
  shows "I s \<Longrightarrow> for_each body xs s = (s', r) \<Longrightarrow> I s'"
proof (induction xs arbitrary: s)
  case Nil
  then show ?case by (simp add: succeed_def)
next
  case (Cons x xs)
  from Cons.prems(2) have "and_then (body x) (\<lambda>_. for_each body xs) s = (s', r)" by simp
  then show ?case
  proof (cases rule: and_then_cases)
    case (raised e)
    with step [OF Cons.prems(1)] show ?thesis by blast
  next
    case (returned s1 a)
    from step [OF Cons.prems(1) returned(1)] have "I s1" .
    from Cons.IH [OF this returned(2)] show ?thesis .
  qed
qed

lemma for_each_cong_inv:
  assumes eq: "\<And>x s. I s \<Longrightarrow> body1 x s = body2 x s"
    and step: "\<And>x s s' r. I s \<Longrightarrow> body2 x s = (s', r) \<Longrightarrow> I s'"
  shows "I s \<Longrightarrow> for_each body1 xs s = for_each body2 xs s"
proof (induction xs arbitrary: s)
  case Nil
  show ?case by simp
next
  case (Cons x xs)
  show ?case
    unfolding for_each.simps
  proof (rule and_then_cong_at [where ma = "body1 x" and mb = "body2 x"])
    show "body1 x s = body2 x s" using Cons.prems by (rule eq)
  next
    fix s1 a assume "body2 x s = (s1, Inr a)"
    with step [OF Cons.prems] have "I s1" by blast
    then show "for_each body1 xs s1 = for_each body2 xs s1" by (rule Cons.IH)
  qed
qed

lemma compute_loop_log:
  assumes "for_each (compute_node (succeed ()) E) nodes s = (s', r)"
  shows "\<exists>evs. fst s' = fst s @ evs
      \<and> (\<forall>e\<in>set evs. hook_of e = Some ComputeOutput)
      \<and> (\<forall>e\<in>set (butlast evs). outcome e = Some (Inr PyNone))
      \<and> (r = Inr () \<longrightarrow> (\<forall>e\<in>set evs. outcome e = Some (Inr PyNone)))
      \<and> (\<forall>v. evs \<noteq> [] \<and> outcome (last evs) = Some (Inr v) \<and> v \<noteq> PyNone
            \<longrightarrow> r = Inl AssertionError)
      \<and> (keeps_frozen E \<and> frozen (snd s) \<longrightarrow> (\<forall>e\<in>set evs. seen_mutable e = Some False))"
  using assms
proof (induction nodes arbitrary: s)
  case Nil
  then have "s' = s" by (simp add: succeed_def)
  then show ?case by simp
next
  case (Cons node nodes)
  let ?flag = "map_option is_mutable (graph (snd s))"
  have flag: "frozen (snd s) \<Longrightarrow> ?flag = Some False"
    by (auto simp: frozen_def split: option.splits)
  from Cons.prems
  have "and_then (compute_node (succeed ()) E node)
          (\<lambda>_. for_each (compute_node (succeed ()) E) nodes) s = (s', r)"
    by simp
  then show ?case
  proof (cases rule: and_then_cases)
    case (raised e)
    from compute_node_log [OF raised(1)] show ?thesis
    proof (elim disjE exE conjE)
      assume "fst s' = fst s"
      then show ?thesis by simp
    next
      fix out
      assume log: "fst s' = fst s @ [Call ComputeOutput node ?flag out]"
        and out: "Inl e = (case out of
                      Inl e \<Rightarrow> Inl e
                    | Inr v \<Rightarrow> if v = PyNone then Inr () else Inl AssertionError)"
      have "\<forall>v. out = Inr v \<and> v \<noteq> PyNone \<longrightarrow> r = Inl AssertionError"
        using out raised(2) by (auto split: if_splits)
      with log raised(2) flag show ?thesis
        by (intro exI [of _ "[Call ComputeOutput node ?flag out]"]) simp
    qed
  next
    case (returned s1 a)
    from compute_node_log [OF returned(1)] obtain out where
      "fst s1 = fst s @ [Call ComputeOutput node ?flag out]"
      and "Inr a = (case out of
                      Inl e \<Rightarrow> Inl e
                    | Inr v \<Rightarrow> if v = PyNone then Inr () else Inl AssertionError)"
      by blast
    then have log1: "fst s1 = fst s @ [Call ComputeOutput node ?flag (Inr PyNone)]"
      by (cases out) (auto split: if_splits)
    from Cons.IH [OF returned(2)] obtain evs where
      evs: "fst s' = fst s1 @ evs"
        "\<forall>e\<in>set evs. hook_of e = Some ComputeOutput"
        "\<forall>e\<in>set (butlast evs). outcome e = Some (Inr PyNone)"
        "r = Inr () \<longrightarrow> (\<forall>e\<in>set evs. outcome e = Some (Inr PyNone))"
        "\<forall>v. evs \<noteq> [] \<and> outcome (last evs) = Some (Inr v) \<and> v \<noteq> PyNone
            \<longrightarrow> r = Inl AssertionError"
        "keeps_frozen E \<and> frozen (snd s1) \<longrightarrow> (\<forall>e\<in>set evs. seen_mutable e = Some False)"
      by blast
    let ?ev = "Call ComputeOutput node ?flag (Inr PyNone)"
    have frozen1: "keeps_frozen E \<and> frozen (snd s) \<Longrightarrow> frozen (snd s1)"
      using compute_node_frozen [OF returned(1)] by blast
    have "fst s' = fst s @ (?ev # evs)"
      using log1 evs(1) by simp
    moreover have "\<forall>e\<in>set (?ev # evs). hook_of e = Some ComputeOutput"
      using evs(2) by simp
    moreover have "\<forall>e\<in>set (butlast (?ev # evs)). outcome e = Some (Inr PyNone)"
      using evs(3) by simp
    moreover have "r = Inr () \<longrightarrow> (\<forall>e\<in>set (?ev # evs). outcome e = Some (Inr PyNone))"
      using evs(4) by simp
    moreover have "\<forall>v. ?ev # evs \<noteq> [] \<and> outcome (last (?ev # evs)) = Some (Inr v) \<and> v \<noteq> PyNone
            \<longrightarrow> r = Inl AssertionError"
      using evs(5) by auto
    moreover have "keeps_frozen E \<and> frozen (snd s)
        \<longrightarrow> (\<forall>e\<in>set (?ev # evs). seen_mutable e = Some False)"
      using evs(6) frozen1 flag by auto
    ultimately show ?thesis by blast
  qed
qed

lemma compute_loop_at_once:
  assumes "returns_at_once rb" and "is_built (snd s)"
  shows "for_each (compute_node rb E) nodes s = for_each (compute_node (succeed ()) E) nodes s"
  by (rule for_each_cong_inv [where I = "\<lambda>s. is_built (snd s)"])
     (auto simp: assms compute_node_at_once intro: compute_node_built)

lemma compute_loop_built:
  assumes "for_each (compute_node (succeed ()) E) nodes s = (s', r)" and "is_built (snd s)"
  shows "is_built (snd s')"
  by (rule for_each_inv [where I = "\<lambda>s. is_built (snd s)", OF _ assms(2) assms(1)])
     (rule compute_node_built)

lemma hook_step_log:
  assumes "and_then (relative_network (succeed ()) node) (\<lambda>_.
             and_then (call_hook h node fn) (\<lambda>_. succeed ())) s = (s', r)"
  shows "(s' = s \<and> (\<exists>e. r = Inl e))
       \<or> (\<exists>b out. fst s' = fst s @ [Call h node b out] \<and> is_built (snd s')
             \<and> r = (case out of Inl e \<Rightarrow> Inl e | Inr _ \<Rightarrow> Inr ()))"
  using assms
proof (cases rule: and_then_cases)
  case (raised e)
  then show ?thesis using relative_network_succeed_state [of node s] by simp
next
  case (returned s1 rel)
  then have s1: "s1 = s" using relative_network_succeed_state [of node s] by simp
  let ?out = "snd (fn (snd s))"
  from returned(2) have "s' = fst (call_hook h node fn s)
      \<and> r = (case ?out of Inl e \<Rightarrow> Inl e | Inr _ \<Rightarrow> Inr ())"
    unfolding s1 by (cases ?out) (auto simp: and_then_def call_hook_result succeed_def)
  then have "fst s' = fst s @ [Call h node (map_option is_mutable (graph (snd s))) ?out]
      \<and> is_built (snd s') \<and> r = (case ?out of Inl e \<Rightarrow> Inl e | Inr _ \<Rightarrow> Inr ())"
    by (simp add: call_hook_result is_built_def apply_effect_graph)
  then show ?thesis by blast
qed

lemma hook_loop_log:
  assumes "hook_loop (succeed ()) h f nodes s = (s', r)"
  shows "\<exists>evs. fst s' = fst s @ evs
      \<and> (\<forall>e\<in>set evs. hook_of e = Some h)
      \<and> (r = Inr () \<longrightarrow> map called evs = map (\<lambda>n. Some (h, n)) nodes)
      \<and> (is_built (snd s) \<longrightarrow> is_built (snd s'))"
  using assms unfolding hook_loop_def
proof (induction nodes arbitrary: s)
  case Nil
  then have "s' = s" by (simp add: succeed_def)
  then show ?case by simp
next
  case (Cons node nodes)
  let ?body = "\<lambda>node. and_then (relative_network (succeed ()) node) (\<lambda>_.
             and_then (call_hook h node (f node)) (\<lambda>_. succeed ()))"
  from Cons.prems have "and_then (?body node) (\<lambda>_. for_each ?body nodes) s = (s', r)"
    by simp
  then show ?case
  proof (cases rule: and_then_cases)
    case (raised e)
    from hook_step_log [OF raised(1)] show ?thesis
    proof (elim disjE exE conjE)
      assume "s' = s"
      with raised(2) show ?thesis by simp
    next
      fix b out
      assume "fst s' = fst s @ [Call h node b out]" "is_built (snd s')"
      with raised(2) show ?thesis
        by (intro exI [of _ "[Call h node b out]"]) simp
    qed
  next
    case (returned s1 a)
    from hook_step_log [OF returned(1)] obtain b out where
      s1: "fst s1 = fst s @ [Call h node b out]" "is_built (snd s1)"
      by auto
    from Cons.IH [OF returned(2)] obtain evs where
      evs: "fst s' = fst s1 @ evs" "\<forall>e\<in>set evs. hook_of e = Some h"
        "r = Inr () \<longrightarrow> map called evs = map (\<lambda>n. Some (h, n)) nodes"
        "is_built (snd s1) \<longrightarrow> is_built (snd s')"
      by blast
    with s1 show ?thesis
      by (intro exI [of _ "Call h node b out # evs"]) simp
  qed
qed

lemma hook_step_at_once:
  assumes "returns_at_once rb" and "is_built (snd s)"
  shows "and_then (relative_network rb node) (\<lambda>_.
             and_then (call_hook h node fn) (\<lambda>_. succeed ())) s
       = and_then (relative_network (succeed ()) node) (\<lambda>_.
             and_then (call_hook h node fn) (\<lambda>_. succeed ())) s"
  using relative_network_at_once [OF assms, of node] by (simp add: and_then_def)

lemma hook_step_built:
  assumes "and_then (relative_network (succeed ()) node) (\<lambda>_.
             and_then (call_hook h node fn) (\<lambda>_. succeed ())) s = (s', r)"
    and "is_built (snd s)"
  shows "is_built (snd s')"
  using hook_step_log [OF assms(1)] assms(2) by auto

lemma hook_loop_at_once:
  assumes "returns_at_once rb" and "is_built (snd s)"
  shows "hook_loop rb h f nodes s = hook_loop (succeed ()) h f nodes s"
  unfolding hook_loop_def
  by (rule for_each_cong_inv [where I = "\<lambda>s. is_built (snd s)"])
     (auto simp: assms hook_step_at_once intro: hook_step_built)

lemma the_graph_Inr:
  "on_network the_graph s = (s1, Inr g) \<Longrightarrow> s1 = s \<and> graph (snd s) = Some g"
  by (auto simp: on_network_def the_graph_def split: option.splits)

lemma the_graph_Inl: "on_network the_graph s = (s1, Inl e) \<Longrightarrow> s1 = s"
  using the_graph_state [of s] by simp

lemma init_node_states_result:
  "init_node_states nodes s = (s1, r) \<Longrightarrow>
   fst s1 = fst s \<and> graph (snd s1) = graph (snd s) \<and> r = Inr ()"
  by (auto simp: init_node_states_def)

lemma freeze_result:
  "freeze s = (s1, r) \<Longrightarrow>
   (s1 = s \<and> (\<exists>e. r = Inl e))
   \<or> (fst s1 = fst s @ [Freeze] \<and> frozen (snd s1) \<and> r = Inr ())"
  by (auto simp: freeze_def frozen_def split: option.splits)

lemma frozen_built: "frozen net \<Longrightarrow> is_built net"
  by (auto simp: frozen_def is_built_def split: option.splits)

text \<open>The entries appended from the output phase on.\<close>

lemma output_phases_log:
  assumes "and_then (on_network the_graph) (\<lambda>g.
           and_then (for_each (compute_node (succeed ()) E)
                       (computation_graph_nodes_topological E g)) (\<lambda>_.
           and_then (on_network the_graph) (\<lambda>g.
             hook_loop (succeed ()) MutateUpdateDeltas (mutate_update_deltas E)
               (architectural_tree_nodes_root_to_leaves E g)))) s = (s', r)"
  shows "\<exists>cevs mevs. fst s' = fst s @ cevs @ mevs
      \<and> (\<forall>e\<in>set cevs. hook_of e = Some ComputeOutput)
      \<and> (\<forall>e\<in>set mevs. hook_of e = Some MutateUpdateDeltas)
      \<and> (\<forall>e\<in>set (butlast cevs). outcome e = Some (Inr PyNone))
      \<and> (mevs \<noteq> [] \<or> r = Inr () \<longrightarrow> (\<forall>e\<in>set cevs. outcome e = Some (Inr PyNone)))
      \<and> (\<forall>v. cevs \<noteq> [] \<and> outcome (last cevs) = Some (Inr v) \<and> v \<noteq> PyNone
            \<longrightarrow> mevs = [] \<and> r = Inl AssertionError)
      \<and> (keeps_frozen E \<and> frozen (snd s) \<longrightarrow> (\<forall>e\<in>set cevs. seen_mutable e = Some False))"
  using assms
proof (cases rule: and_then_cases)
  case (raised e)
  then have "s' = s" by (simp add: the_graph_Inl)
  then show ?thesis by (intro exI [of _ "[]"]) simp
next
  case (returned s1 g)
  then have s1: "s1 = s" by (simp add: the_graph_Inr)
  from returned(2) show ?thesis
  proof (cases rule: and_then_cases)
    case (raised e)
    from compute_loop_log [OF raised(1)] obtain cevs where
      "fst s' = fst s1 @ cevs"
      "\<forall>e\<in>set cevs. hook_of e = Some ComputeOutput"
      "\<forall>e\<in>set (butlast cevs). outcome e = Some (Inr PyNone)"
      "\<forall>v. cevs \<noteq> [] \<and> outcome (last cevs) = Some (Inr v) \<and> v \<noteq> PyNone
            \<longrightarrow> Inl e = (Inl AssertionError :: error + unit)"
      "keeps_frozen E \<and> frozen (snd s1) \<longrightarrow> (\<forall>e\<in>set cevs. seen_mutable e = Some False)"
      by blast
    with raised(2) s1 show ?thesis
      by (intro exI [of _ cevs] exI [of _ "[]"]) simp
  next
    case (returned s2 u)
    from compute_loop_log [OF returned(1)] obtain cevs where
      cevs: "fst s2 = fst s1 @ cevs"
        "\<forall>e\<in>set cevs. hook_of e = Some ComputeOutput"
        "\<forall>e\<in>set cevs. outcome e = Some (Inr PyNone)"
        "keeps_frozen E \<and> frozen (snd s1) \<longrightarrow> (\<forall>e\<in>set cevs. seen_mutable e = Some False)"
      by auto
    have butlast: "\<forall>e\<in>set (butlast cevs). outcome e = Some (Inr PyNone)"
      using cevs(3) by (meson in_set_butlastD)
    have last: "\<forall>v. cevs \<noteq> [] \<and> outcome (last cevs) = Some (Inr v) \<and> v \<noteq> PyNone \<longrightarrow> P" for P
      using cevs(3) by (metis last_in_set option.inject sum.inject(2))
    from returned(2) show ?thesis
    proof (cases rule: and_then_cases)
      case (raised e)
      then have "s' = s2" by (simp add: the_graph_Inl)
      with cevs butlast last s1 show ?thesis
        by (intro exI [of _ cevs] exI [of _ "[]"]) simp
    next
      case (returned s3 g')
      then have s3: "s3 = s2" by (simp add: the_graph_Inr)
      from hook_loop_log [OF returned(2)] obtain mevs where
        "fst s' = fst s3 @ mevs" "\<forall>e\<in>set mevs. hook_of e = Some MutateUpdateDeltas"
        by blast
      with cevs butlast last s1 s3 show ?thesis
        by (intro exI [of _ cevs] exI [of _ mevs]) simp
    qed
  qed
qed

text \<open>The log of the phases of \<open>build\<close>.\<close>

lemma build_phases_log:
  assumes run: "build_phases (succeed ()) E s = (s', r)" and g0: "graph (snd s) = Some g0"
  shows "\<exists>ilr ist.
      (\<forall>e\<in>set ilr. hook_of e = Some InitLongRangeDependencies)
      \<and> (\<forall>e\<in>set ist. hook_of e = Some InitState)
      \<and> ((fst s' = fst s @ ilr @ ist \<and> (\<exists>e. r = Inl e))
         \<or> (\<exists>g1 cevs mevs. fst s' = fst s @ ilr @ ist @ Freeze # cevs @ mevs
              \<and> map called ilr = map (\<lambda>n. Some (InitLongRangeDependencies, n))
                                    (architectural_tree_nodes_root_to_leaves E g0)
              \<and> map called ist = map (\<lambda>n. Some (InitState, n))
                                    (architectural_tree_nodes_root_to_leaves E g1)
              \<and> (\<forall>e\<in>set cevs. hook_of e = Some ComputeOutput)
              \<and> (\<forall>e\<in>set mevs. hook_of e = Some MutateUpdateDeltas)
              \<and> (\<forall>e\<in>set (butlast cevs). outcome e = Some (Inr PyNone))
              \<and> (mevs \<noteq> [] \<or> r = Inr () \<longrightarrow> (\<forall>e\<in>set cevs. outcome e = Some (Inr PyNone)))
              \<and> (\<forall>v. cevs \<noteq> [] \<and> outcome (last cevs) = Some (Inr v) \<and> v \<noteq> PyNone
                    \<longrightarrow> mevs = [] \<and> r = Inl AssertionError)
              \<and> (keeps_frozen E \<longrightarrow> (\<forall>e\<in>set cevs. seen_mutable e = Some False))))"
  using run unfolding build_phases_def
proof (cases rule: and_then_cases)
  case (raised e)
  then have "s' = s" by (simp add: the_graph_Inl)
  with raised(2) show ?thesis
    by (intro exI [of _ "[]"]) simp
next
  case (returned s1 g)
  then have s1: "s1 = s" "g = g0" using g0 by (auto dest: the_graph_Inr)
  from returned(2) show ?thesis
  proof (cases rule: and_then_cases)
    case (raised e)
    then have False by (simp add: init_node_states_def)
    then show ?thesis ..
  next
    case (returned s2 u)
    from init_node_states_result [OF returned(1)]
    have s2: "fst s2 = fst s" "graph (snd s2) = Some g0"
      using s1 g0 by simp_all
    from returned(2) show ?thesis
    proof (cases rule: and_then_cases)
      case (raised e)
      then have "s' = s2" by (simp add: the_graph_Inl)
      with raised(2) s2 show ?thesis
        by (intro exI [of _ "[]"]) simp
    next
      case (returned s3 g')
      then have s3: "s3 = s2" "g' = g0" using s2 by (auto dest: the_graph_Inr)
      from returned(2) show ?thesis
      proof (cases rule: and_then_cases)
        case (raised e)
        from hook_loop_log [OF raised(1)] obtain ilr where
          "fst s' = fst s3 @ ilr" "\<forall>e\<in>set ilr. hook_of e = Some InitLongRangeDependencies"
          by blast
        with raised(2) s3 s2 show ?thesis
          by (intro exI [of _ ilr] exI [of _ "[]"]) simp
      next
        case (returned s4 u1)
        from hook_loop_log [OF returned(1)] obtain ilr where
          ilr0: "fst s4 = fst s3 @ ilr"
            "\<forall>e\<in>set ilr. hook_of e = Some InitLongRangeDependencies"
            "Inr u1 = (Inr () :: error + unit) \<longrightarrow>
               map called ilr = map (\<lambda>n. Some (InitLongRangeDependencies, n))
                                (architectural_tree_nodes_root_to_leaves E g')"
          by blast
        have ilr: "fst s4 = fst s @ ilr"
            "\<forall>e\<in>set ilr. hook_of e = Some InitLongRangeDependencies"
            "map called ilr = map (\<lambda>n. Some (InitLongRangeDependencies, n))
                                (architectural_tree_nodes_root_to_leaves E g0)"
          using ilr0 s3 s2 by simp_all
        from returned(2) show ?thesis
        proof (cases rule: and_then_cases)
          case (raised e)
          then have "s' = s4" by (simp add: the_graph_Inl)
          with raised(2) ilr show ?thesis
            by (intro exI [of _ ilr] exI [of _ "[]"]) simp
        next
          case (returned s5 g1)
          then have s5: "s5 = s4" by (simp add: the_graph_Inr)
          from returned(2) show ?thesis
          proof (cases rule: and_then_cases)
            case (raised e)
            from hook_loop_log [OF raised(1)] obtain ist where
              "fst s' = fst s5 @ ist" "\<forall>e\<in>set ist. hook_of e = Some InitState"
              by blast
            with raised(2) s5 ilr show ?thesis
              by (intro exI [of _ ilr] exI [of _ ist]) simp
          next
            case (returned s6 u2)
            from hook_loop_log [OF returned(1)] obtain ist where
              ist0: "fst s6 = fst s5 @ ist"
                "\<forall>e\<in>set ist. hook_of e = Some InitState"
                "Inr u2 = (Inr () :: error + unit) \<longrightarrow>
                   map called ist = map (\<lambda>n. Some (InitState, n))
                                    (architectural_tree_nodes_root_to_leaves E g1)"
              by blast
            have ist: "fst s6 = fst s @ ilr @ ist"
                "\<forall>e\<in>set ist. hook_of e = Some InitState"
                "map called ist = map (\<lambda>n. Some (InitState, n))
                                    (architectural_tree_nodes_root_to_leaves E g1)"
              using ist0 s5 ilr(1) by simp_all
            from returned(2) show ?thesis
            proof (cases rule: and_then_cases)
              case (raised e)
              with freeze_result [of s6 s' "Inl e"] have "s' = s6" by simp
              with raised(2) ist ilr show ?thesis
                by (intro exI [of _ ilr] exI [of _ ist]) simp
            next
              case (returned s7 u3)
              with freeze_result [of s6 s7 "Inr u3"]
              have s7: "fst s7 = fst s @ ilr @ ist @ [Freeze]" "frozen (snd s7)"
                using ist(1) by simp_all
              from output_phases_log [OF returned(2)] obtain cevs mevs where
                out: "fst s' = fst s7 @ cevs @ mevs"
                "\<forall>e\<in>set cevs. hook_of e = Some ComputeOutput"
                "\<forall>e\<in>set mevs. hook_of e = Some MutateUpdateDeltas"
                "\<forall>e\<in>set (butlast cevs). outcome e = Some (Inr PyNone)"
                "mevs \<noteq> [] \<or> r = Inr () \<longrightarrow> (\<forall>e\<in>set cevs. outcome e = Some (Inr PyNone))"
                "\<forall>v. cevs \<noteq> [] \<and> outcome (last cevs) = Some (Inr v) \<and> v \<noteq> PyNone
                      \<longrightarrow> mevs = [] \<and> r = Inl AssertionError"
                "keeps_frozen E \<and> frozen (snd s7) \<longrightarrow> (\<forall>e\<in>set cevs. seen_mutable e = Some False)"
                by (elim exE conjE) (rule that)
              have "fst s' = fst s @ ilr @ ist @ Freeze # cevs @ mevs"
                using out(1) s7(1) by simp
              moreover have "keeps_frozen E \<longrightarrow> (\<forall>e\<in>set cevs. seen_mutable e = Some False)"
                using out(7) s7(2) by blast
              ultimately show ?thesis
                using ilr(2,3) ist(2,3) out(2-6)
                by (intro exI [of _ ilr] exI [of _ ist] conjI disjI2
                      exI [of _ g1] exI [of _ cevs] exI [of _ mevs]) assumption+
            qed
          qed
        qed
      qed
    qed
  qed
qed

lemma init_node_states_built:
  "init_node_states nodes s = (s1, r) \<Longrightarrow> is_built (snd s) \<Longrightarrow> is_built (snd s1)"
  by (auto simp: init_node_states_def is_built_def)

lemma freeze_built: "freeze s = (s1, r) \<Longrightarrow> is_built (snd s) \<Longrightarrow> is_built (snd s1)"
  by (auto simp: freeze_def is_built_def split: option.splits)

lemma hook_loop_built:
  "hook_loop (succeed ()) h f nodes s = (s', r) \<Longrightarrow> is_built (snd s) \<Longrightarrow> is_built (snd s')"
  using hook_loop_log [of h f nodes s s' r] by blast

text \<open>
  The phases do not depend on which \<open>build\<close> they call back, as long as it returns at
  once on a network that has its graph.
\<close>

lemma build_phases_at_once:
  assumes rb: "returns_at_once rb" and built: "is_built (snd s)"
  shows "build_phases rb E s = build_phases (succeed ()) E s"
  unfolding build_phases_def
proof (rule and_then_cong_at [OF refl])
  fix s1 g assume "on_network the_graph s = (s1, Inr g)"
  then have b1: "is_built (snd s1)" using built by (auto dest: the_graph_Inr)
  show "and_then (init_node_states (architectural_tree_nodes_root_to_leaves E g)) (\<lambda>_.
     and_then (on_network the_graph) (\<lambda>g.
     and_then (hook_loop rb InitLongRangeDependencies (init_long_range_dependencies E)
                 (architectural_tree_nodes_root_to_leaves E g)) (\<lambda>_.
     and_then (on_network the_graph) (\<lambda>g.
     and_then (hook_loop rb InitState (init_state E)
                 (architectural_tree_nodes_root_to_leaves E g)) (\<lambda>_.
     and_then freeze (\<lambda>_.
     and_then (on_network the_graph) (\<lambda>g.
     and_then (for_each (compute_node rb E)
                 (computation_graph_nodes_topological E g)) (\<lambda>_.
     and_then (on_network the_graph) (\<lambda>g.
       hook_loop rb MutateUpdateDeltas (mutate_update_deltas E)
         (architectural_tree_nodes_root_to_leaves E g)))))))))) s1
   = and_then (init_node_states (architectural_tree_nodes_root_to_leaves E g)) (\<lambda>_.
     and_then (on_network the_graph) (\<lambda>g.
     and_then (hook_loop (succeed ()) InitLongRangeDependencies (init_long_range_dependencies E)
                 (architectural_tree_nodes_root_to_leaves E g)) (\<lambda>_.
     and_then (on_network the_graph) (\<lambda>g.
     and_then (hook_loop (succeed ()) InitState (init_state E)
                 (architectural_tree_nodes_root_to_leaves E g)) (\<lambda>_.
     and_then freeze (\<lambda>_.
     and_then (on_network the_graph) (\<lambda>g.
     and_then (for_each (compute_node (succeed ()) E)
                 (computation_graph_nodes_topological E g)) (\<lambda>_.
     and_then (on_network the_graph) (\<lambda>g.
       hook_loop (succeed ()) MutateUpdateDeltas (mutate_update_deltas E)
         (architectural_tree_nodes_root_to_leaves E g)))))))))) s1"
  proof (rule and_then_cong_at [OF refl])
    fix s2 and u :: unit
    assume "init_node_states (architectural_tree_nodes_root_to_leaves E g) s1 = (s2, Inr u)"
    then have b2: "is_built (snd s2)" using b1 by (rule init_node_states_built)
    show "and_then (on_network the_graph) (\<lambda>g.
       and_then (hook_loop rb InitLongRangeDependencies (init_long_range_dependencies E)
                   (architectural_tree_nodes_root_to_leaves E g)) (\<lambda>_.
       and_then (on_network the_graph) (\<lambda>g.
       and_then (hook_loop rb InitState (init_state E)
                   (architectural_tree_nodes_root_to_leaves E g)) (\<lambda>_.
       and_then freeze (\<lambda>_.
       and_then (on_network the_graph) (\<lambda>g.
       and_then (for_each (compute_node rb E)
                   (computation_graph_nodes_topological E g)) (\<lambda>_.
       and_then (on_network the_graph) (\<lambda>g.
         hook_loop rb MutateUpdateDeltas (mutate_update_deltas E)
           (architectural_tree_nodes_root_to_leaves E g))))))))) s2
     = and_then (on_network the_graph) (\<lambda>g.
       and_then (hook_loop (succeed ()) InitLongRangeDependencies (init_long_range_dependencies E)
                   (architectural_tree_nodes_root_to_leaves E g)) (\<lambda>_.
       and_then (on_network the_graph) (\<lambda>g.
       and_then (hook_loop (succeed ()) InitState (init_state E)
                   (architectural_tree_nodes_root_to_leaves E g)) (\<lambda>_.
       and_then freeze (\<lambda>_.
       and_then (on_network the_graph) (\<lambda>g.
       and_then (for_each (compute_node (succeed ()) E)
                   (computation_graph_nodes_topological E g)) (\<lambda>_.
       and_then (on_network the_graph) (\<lambda>g.
         hook_loop (succeed ()) MutateUpdateDeltas (mutate_update_deltas E)
           (architectural_tree_nodes_root_to_leaves E g))))))))) s2"
    proof (rule and_then_cong_at [OF refl])
      fix s3 ga assume "on_network the_graph s2 = (s3, Inr ga)"
      then have b3: "is_built (snd s3)" using b2 by (auto dest: the_graph_Inr)
      let ?ilr = "\<lambda>rb. hook_loop rb InitLongRangeDependencies (init_long_range_dependencies E)
                   (architectural_tree_nodes_root_to_leaves E ga)"
      show "and_then (?ilr rb) (\<lambda>_.
         and_then (on_network the_graph) (\<lambda>g.
         and_then (hook_loop rb InitState (init_state E)
                     (architectural_tree_nodes_root_to_leaves E g)) (\<lambda>_.
         and_then freeze (\<lambda>_.
         and_then (on_network the_graph) (\<lambda>g.
         and_then (for_each (compute_node rb E)
                     (computation_graph_nodes_topological E g)) (\<lambda>_.
         and_then (on_network the_graph) (\<lambda>g.
           hook_loop rb MutateUpdateDeltas (mutate_update_deltas E)
             (architectural_tree_nodes_root_to_leaves E g)))))))) s3
       = and_then (?ilr (succeed ())) (\<lambda>_.
         and_then (on_network the_graph) (\<lambda>g.
         and_then (hook_loop (succeed ()) InitState (init_state E)
                     (architectural_tree_nodes_root_to_leaves E g)) (\<lambda>_.
         and_then freeze (\<lambda>_.
         and_then (on_network the_graph) (\<lambda>g.
         and_then (for_each (compute_node (succeed ()) E)
                     (computation_graph_nodes_topological E g)) (\<lambda>_.
         and_then (on_network the_graph) (\<lambda>g.
           hook_loop (succeed ()) MutateUpdateDeltas (mutate_update_deltas E)
             (architectural_tree_nodes_root_to_leaves E g)))))))) s3"
      proof (rule and_then_cong_at [where ma = "?ilr rb" and mb = "?ilr (succeed ())"])
        show "?ilr rb s3 = ?ilr (succeed ()) s3"
          using rb b3 by (rule hook_loop_at_once)
      next
        fix s4 and u4 :: unit
        assume "?ilr (succeed ()) s3 = (s4, Inr u4)"
        then have b4: "is_built (snd s4)" using b3 by (rule hook_loop_built)
        show "and_then (on_network the_graph) (\<lambda>g.
           and_then (hook_loop rb InitState (init_state E)
                       (architectural_tree_nodes_root_to_leaves E g)) (\<lambda>_.
           and_then freeze (\<lambda>_.
           and_then (on_network the_graph) (\<lambda>g.
           and_then (for_each (compute_node rb E)
                       (computation_graph_nodes_topological E g)) (\<lambda>_.
           and_then (on_network the_graph) (\<lambda>g.
             hook_loop rb MutateUpdateDeltas (mutate_update_deltas E)
               (architectural_tree_nodes_root_to_leaves E g))))))) s4
         = and_then (on_network the_graph) (\<lambda>g.
           and_then (hook_loop (succeed ()) InitState (init_state E)
                       (architectural_tree_nodes_root_to_leaves E g)) (\<lambda>_.
           and_then freeze (\<lambda>_.
           and_then (on_network the_graph) (\<lambda>g.
           and_then (for_each (compute_node (succeed ()) E)
                       (computation_graph_nodes_topological E g)) (\<lambda>_.
           and_then (on_network the_graph) (\<lambda>g.
             hook_loop (succeed ()) MutateUpdateDeltas (mutate_update_deltas E)
               (architectural_tree_nodes_root_to_leaves E g))))))) s4"
        proof (rule and_then_cong_at [OF refl])
          fix s5 gb assume "on_network the_graph s4 = (s5, Inr gb)"
          then have b5: "is_built (snd s5)" using b4 by (auto dest: the_graph_Inr)
          let ?ist = "\<lambda>rb. hook_loop rb InitState (init_state E)
                       (architectural_tree_nodes_root_to_leaves E gb)"
          show "and_then (?ist rb) (\<lambda>_.
             and_then freeze (\<lambda>_.
             and_then (on_network the_graph) (\<lambda>g.
             and_then (for_each (compute_node rb E)
                         (computation_graph_nodes_topological E g)) (\<lambda>_.
             and_then (on_network the_graph) (\<lambda>g.
               hook_loop rb MutateUpdateDeltas (mutate_update_deltas E)
                 (architectural_tree_nodes_root_to_leaves E g)))))) s5
           = and_then (?ist (succeed ())) (\<lambda>_.
             and_then freeze (\<lambda>_.
             and_then (on_network the_graph) (\<lambda>g.
             and_then (for_each (compute_node (succeed ()) E)
                         (computation_graph_nodes_topological E g)) (\<lambda>_.
             and_then (on_network the_graph) (\<lambda>g.
               hook_loop (succeed ()) MutateUpdateDeltas (mutate_update_deltas E)
                 (architectural_tree_nodes_root_to_leaves E g)))))) s5"
          proof (rule and_then_cong_at [where ma = "?ist rb" and mb = "?ist (succeed ())"])
            show "?ist rb s5 = ?ist (succeed ()) s5"
              using rb b5 by (rule hook_loop_at_once)
          next
            fix s6 and u6 :: unit
            assume "?ist (succeed ()) s5 = (s6, Inr u6)"
            then have b6: "is_built (snd s6)" using b5 by (rule hook_loop_built)
            show "and_then freeze (\<lambda>_.
               and_then (on_network the_graph) (\<lambda>g.
               and_then (for_each (compute_node rb E)
                           (computation_graph_nodes_topological E g)) (\<lambda>_.
               and_then (on_network the_graph) (\<lambda>g.
                 hook_loop rb MutateUpdateDeltas (mutate_update_deltas E)
                   (architectural_tree_nodes_root_to_leaves E g))))) s6
             = and_then freeze (\<lambda>_.
               and_then (on_network the_graph) (\<lambda>g.
               and_then (for_each (compute_node (succeed ()) E)
                           (computation_graph_nodes_topological E g)) (\<lambda>_.
               and_then (on_network the_graph) (\<lambda>g.
                 hook_loop (succeed ()) MutateUpdateDeltas (mutate_update_deltas E)
                   (architectural_tree_nodes_root_to_leaves E g))))) s6"
            proof (rule and_then_cong_at [OF refl])
              fix s7 and u7 :: unit
              assume "freeze s6 = (s7, Inr u7)"
              then have b7: "is_built (snd s7)" using b6 by (rule freeze_built)
              show "and_then (on_network the_graph) (\<lambda>g.
                 and_then (for_each (compute_node rb E)
                             (computation_graph_nodes_topological E g)) (\<lambda>_.
                 and_then (on_network the_graph) (\<lambda>g.
                   hook_loop rb MutateUpdateDeltas (mutate_update_deltas E)
                     (architectural_tree_nodes_root_to_leaves E g)))) s7
               = and_then (on_network the_graph) (\<lambda>g.
                 and_then (for_each (compute_node (succeed ()) E)
                             (computation_graph_nodes_topological E g)) (\<lambda>_.
                 and_then (on_network the_graph) (\<lambda>g.
                   hook_loop (succeed ()) MutateUpdateDeltas (mutate_update_deltas E)
                     (architectural_tree_nodes_root_to_leaves E g)))) s7"
              proof (rule and_then_cong_at [OF refl])
                fix s8 gc assume "on_network the_graph s7 = (s8, Inr gc)"
                then have b8: "is_built (snd s8)" using b7 by (auto dest: the_graph_Inr)
                let ?co = "\<lambda>rb. for_each (compute_node rb E)
                             (computation_graph_nodes_topological E gc)"
                show "and_then (?co rb) (\<lambda>_.
                   and_then (on_network the_graph) (\<lambda>g.
                     hook_loop rb MutateUpdateDeltas (mutate_update_deltas E)
                       (architectural_tree_nodes_root_to_leaves E g))) s8
                 = and_then (?co (succeed ())) (\<lambda>_.
                   and_then (on_network the_graph) (\<lambda>g.
                     hook_loop (succeed ()) MutateUpdateDeltas (mutate_update_deltas E)
                       (architectural_tree_nodes_root_to_leaves E g))) s8"
                proof (rule and_then_cong_at [where ma = "?co rb" and mb = "?co (succeed ())"])
                  show "?co rb s8 = ?co (succeed ()) s8"
                    using rb b8 by (rule compute_loop_at_once)
                next
                  fix s9 and u9 :: unit
                  assume "?co (succeed ()) s8 = (s9, Inr u9)"
                  then have b9: "is_built (snd s9)" using b8 by (rule compute_loop_built)
                  show "and_then (on_network the_graph) (\<lambda>g.
                       hook_loop rb MutateUpdateDeltas (mutate_update_deltas E)
                         (architectural_tree_nodes_root_to_leaves E g)) s9
                     = and_then (on_network the_graph) (\<lambda>g.
                       hook_loop (succeed ()) MutateUpdateDeltas (mutate_update_deltas E)
                         (architectural_tree_nodes_root_to_leaves E g)) s9"
                  proof (rule and_then_cong_at [OF refl])
                    fix s10 gd assume "on_network the_graph s9 = (s10, Inr gd)"
                    then have "is_built (snd s10)" using b9 by (auto dest: the_graph_Inr)
                    with rb show "hook_loop rb MutateUpdateDeltas (mutate_update_deltas E)
                           (architectural_tree_nodes_root_to_leaves E gd) s10
                       = hook_loop (succeed ()) MutateUpdateDeltas (mutate_update_deltas E)
                           (architectural_tree_nodes_root_to_leaves E gd) s10"
                      by (rule hook_loop_at_once)
                  qed
                qed
              qed
            qed
          qed
        qed
      qed
    qed
  qed
qed

lemma build_depth_at_once: "returns_at_once (build_depth (Suc n) E)"
  by (simp add: returns_at_once_def)

lemma build_unbuilt:
  assumes "\<not> is_built (snd s)"
  shows "build_depth (Suc (Suc n)) E s =
     (case TreeanoGraph E (root_node (snd s)) of
        Inl e \<Rightarrow> (s, Inl e)
      | Inr g \<Rightarrow> build_phases (succeed ()) E (fst s, (snd s)\<lparr>graph := Some g\<rparr>))"
proof (cases "TreeanoGraph E (root_node (snd s))")
  case (Inl e)
  with assms show ?thesis by simp
next
  case (Inr g)
  have "build_phases (build_depth (Suc n) E) E (fst s, (snd s)\<lparr>graph := Some g\<rparr>)
      = build_phases (succeed ()) E (fst s, (snd s)\<lparr>graph := Some g\<rparr>)"
    by (rule build_phases_at_once [OF build_depth_at_once]) (simp add: is_built_def)
  with assms Inr show ?thesis by simp
qed

text \<open>Deeper recursion changes nothing: two levels are enough.\<close>

lemma build_depth_enough: "build_depth (Suc (Suc n)) E s = build E s"
proof (cases "is_built (snd s)")
  case True
  then show ?thesis by (simp add: build_def)
next
  case False
  then show ?thesis by (simp add: build_def build_unbuilt del: build_depth.simps)
qed

section \<open>Building: the whole of \<open>build\<close>\<close>

lemmas build_eval = build_def build_phases_def hook_loop_def compute_node_def
  relative_network_def RelativeNetwork_def and_then_def succeed_def raise_def on_network_def
  the_graph_def init_node_states_def freeze_def call_hook_def apply_effect_def store_inputs_def
  put_state_def dict_zip_def is_built_def ex_env_def ex_env0_def ex_unchanged_def
  Network_init_def empty_node_state_def getitem_def get_variable_def add_dependency_def
  graph_add_dependency_def create_variable_def

lemma ex_build_log:
  "fst (fst (build ex_env ([], Network_init ex_env ''root'' None None))) =
    [Call InitLongRangeDependencies ''root'' (Some True) (Inr PyNone),
     Call InitLongRangeDependencies ''mid'' (Some True) (Inr PyNone),
     Call InitLongRangeDependencies ''leaf'' (Some True) (Inr PyNone),
     Call InitState ''root'' (Some True) (Inr PyNone),
     Call InitState ''mid'' (Some True) (Inr PyNone),
     Call InitState ''leaf'' (Some True) (Inr PyNone), Freeze,
     Call ComputeOutput ''mid'' (Some False) (Inr PyNone),
     Call ComputeOutput ''leaf'' (Some False) (Inr PyNone),
     Call ComputeOutput ''root'' (Some False) (Inr PyNone),
     Call MutateUpdateDeltas ''root'' (Some False) (Inr PyNone),
     Call MutateUpdateDeltas ''mid'' (Some False) (Inr PyNone),
     Call MutateUpdateDeltas ''leaf'' (Some False) (Inr PyNone)]"
  by (simp add: build_eval)

lemma ex_build_result:
  "snd (build ex_env ([], Network_init ex_env ''root'' None None)) = Inr ()"
  by (simp add: build_eval)

text \<open>After the build, \<open>leaf\<close> holds its own variable and, as its input, the variable of \<open>mid\<close>.\<close>

lemma ex_build_leaf:
  "map_option (\<lambda>st. (current_variables st ''default'',
                      map_option (\<lambda>ins. ins ''default'') (inputs st)))
     (node_state (snd (fst (build ex_env ([], Network_init ex_env ''root'' None None)))) ''leaf'')
   = Some (Some ''leaf:default'', Some (Some ''mid:default''))"
  by (simp add: build_eval)

lemma freeze_Inr_built: "freeze s = (s1, Inr u) \<Longrightarrow> is_built (snd s1)"
  by (auto simp: freeze_def is_built_def split: option.splits)

lemma build_phases_built:
  assumes "build_phases (succeed ()) E s = (s', r)" and "is_built (snd s)"
  shows "is_built (snd s')"
  using assms unfolding build_phases_def
  by (elim and_then_cases)
     (auto dest!: the_graph_Inr the_graph_Inl freeze_Inr_built
           dest: init_node_states_built hook_loop_built freeze_built compute_loop_built)

lemma build_built:
  "build E (log, net) = ((log, net), Inr ())" if "is_built net"
  using that by (simp add: build_def)

lemma build_leaves_built:
  assumes "build E s = (s', r)"
    and "is_built (snd s) \<or> (\<exists>g. TreeanoGraph E (root_node (snd s)) = Inr g)"
  shows "is_built (snd s')"
proof (cases "is_built (snd s)")
  case True
  with assms(1) show ?thesis by (simp add: build_def)
next
  case False
  with assms(2) obtain g where g: "TreeanoGraph E (root_node (snd s)) = Inr g" by blast
  from assms(1) have "build_phases (succeed ()) E (fst s, (snd s)\<lparr>graph := Some g\<rparr>) = (s', r)"
    unfolding build_def build_unbuilt [OF False] g by simp
  then show ?thesis by (rule build_phases_built) (simp add: is_built_def)
qed

text \<open>
  C2. \<open>build\<close> is idempotent. On a network that has its graph it returns at once: the
  network (graph, node state store, update deltas and all) is unchanged and the log is
  unchanged, so no hook has run. And a call of \<open>build\<close> that found the graph present or
  managed to construct it leaves a network on which every later \<open>build\<close> is such a no-op,
  whether or not the first call raised after constructing the graph.
\<close>

theorem build_idempotent:
  "(is_built net \<longrightarrow> build E (log, net) = ((log, net), Inr ()))
   \<and> (build E s = (s', r)
        \<and> (is_built (snd s) \<or> (\<exists>g. TreeanoGraph E (root_node (snd s)) = Inr g))
      \<longrightarrow> build E s' = (s', Inr ()))"
proof (intro conjI impI)
  assume "is_built net"
  then show "build E (log, net) = ((log, net), Inr ())" by (rule build_built)
next
  assume "build E s = (s', r)
        \<and> (is_built (snd s) \<or> (\<exists>g. TreeanoGraph E (root_node (snd s)) = Inr g))"
  then have "is_built (snd s')" using build_leaves_built by blast
  then show "build E s' = (s', Inr ())"
    using build_built [of "snd s'" E "fst s'"] by simp
qed

theorem build_idempotent_witness:
  "build ex_env ([], ex_net) = (([], ex_net), Inr ())
   \<and> build ex_env (fst (build ex_env ([], Network_init ex_env ''root'' None None)))
       = (fst (build ex_env ([], Network_init ex_env ''root'' None None)), Inr ())"
proof -
  let ?s = "([], Network_init ex_env ''root'' None None) :: (ex_graph, string, unit) build_state"
  have built: "is_built ex_net"
    by (simp add: is_built_def ex_net_def)
  have run: "build ex_env ?s = (fst (build ex_env ?s), snd (build ex_env ?s))"
    by simp
  have graph: "\<exists>g. TreeanoGraph ex_env (root_node (snd ?s)) = Inr g"
    by (simp add: ex_env_def ex_env0_def)
  from build_idempotent [where net = ex_net and E = ex_env and log = "[]" and s = ?s
      and s' = "fst (build ex_env ?s)" and r = "snd (build ex_env ?s)"]
    built run graph
  show ?thesis by blast
qed

lemma build_log:
  assumes "\<not> is_built net" and run: "build E ([], net) = ((log, net'), r)"
  shows "\<exists>ilr ist.
      (\<forall>e\<in>set ilr. hook_of e = Some InitLongRangeDependencies)
      \<and> (\<forall>e\<in>set ist. hook_of e = Some InitState)
      \<and> ((log = ilr @ ist \<and> (\<exists>e. r = Inl e))
         \<or> (\<exists>g0 g1 cevs mevs. TreeanoGraph E (root_node net) = Inr g0
              \<and> log = ilr @ ist @ Freeze # cevs @ mevs
              \<and> map called ilr = map (\<lambda>n. Some (InitLongRangeDependencies, n))
                                    (architectural_tree_nodes_root_to_leaves E g0)
              \<and> map called ist = map (\<lambda>n. Some (InitState, n))
                                    (architectural_tree_nodes_root_to_leaves E g1)
              \<and> (\<forall>e\<in>set cevs. hook_of e = Some ComputeOutput)
              \<and> (\<forall>e\<in>set mevs. hook_of e = Some MutateUpdateDeltas)
              \<and> (\<forall>e\<in>set (butlast cevs). outcome e = Some (Inr PyNone))
              \<and> (mevs \<noteq> [] \<or> r = Inr () \<longrightarrow> (\<forall>e\<in>set cevs. outcome e = Some (Inr PyNone)))
              \<and> (\<forall>v. cevs \<noteq> [] \<and> outcome (last cevs) = Some (Inr v) \<and> v \<noteq> PyNone
                    \<longrightarrow> mevs = [] \<and> r = Inl AssertionError)
              \<and> (keeps_frozen E \<longrightarrow> (\<forall>e\<in>set cevs. seen_mutable e = Some False))))"
proof (cases "TreeanoGraph E (root_node net)")
  case (Inl e)
  with assms have "log = []" "r = Inl e"
    unfolding build_def by (simp_all add: build_unbuilt del: build_depth.simps)
  then show ?thesis by (intro exI [of _ "[]"]) simp
next
  case (Inr g0)
  with assms have "build_phases (succeed ()) E ([], net\<lparr>graph := Some g0\<rparr>) = ((log, net'), r)"
    unfolding build_def by (simp add: build_unbuilt del: build_depth.simps)
  from build_phases_log [OF this, of g0] Inr show ?thesis by simp
qed

lemma frozen_add_dependency:
  "frozen net \<Longrightarrow> add_dependency E a b c d net = (net, Inl GraphMutationAfterFreeze)"
  by (auto simp: frozen_def add_dependency_def and_then_def the_graph_def
      graph_add_dependency_def split: option.splits)

lemma frozen_remove_dependency:
  "frozen net \<Longrightarrow> remove_dependency E a b net = (net, Inl GraphMutationAfterFreeze)"
  by (auto simp: frozen_def remove_dependency_def and_then_def the_graph_def
      graph_remove_dependency_def split: option.splits)

lemma create_variable_graph: "graph (fst (create_variable E self_name name kwargs net)) = graph net"
  by (simp add: create_variable_def put_state_def split: sum.splits)

text \<open>
  The methods of the view modelled above leave a frozen graph frozen: a hook that acts
  through them satisfies \<open>keeps_frozen\<close>.
\<close>

lemma view_methods_keep_frozen:
  assumes "frozen net"
  shows "frozen (fst (store_inputs self_name ins net))"
    and "frozen (fst (set_hyperparameter self_name node_name k v net))"
    and "frozen (fst (create_variable E self_name name kwargs net))"
    and "frozen (fst (replace_variable self_name name new_variable net))"
    and "frozen (fst (add_dependency E from_name to_name from_key to_key net))"
    and "frozen (fst (remove_dependency E from_name to_name net))"
    and "frozen (fst (forward_input_to E self_name node_name previous_to_key to_key ignore net))"
proof -
  show "frozen (fst (store_inputs self_name ins net))"
    using assms by (simp add: frozen_def store_inputs_def put_state_def split: sum.splits)
  show "frozen (fst (set_hyperparameter self_name node_name k v net))"
    using assms
    by (simp add: frozen_def set_hyperparameter_def put_state_def Let_def split: sum.splits)
  show "frozen (fst (create_variable E self_name name kwargs net))"
    using assms by (simp add: frozen_def create_variable_graph)
  show "frozen (fst (replace_variable self_name name new_variable net))"
    using assms by (simp add: frozen_def replace_variable_def put_state_def split: sum.splits)
  show "frozen (fst (add_dependency E from_name to_name from_key to_key net))"
    using assms by (simp add: frozen_add_dependency)
  show "frozen (fst (remove_dependency E from_name to_name net))"
    using assms by (simp add: frozen_remove_dependency)
  show "frozen (fst (forward_input_to E self_name node_name previous_to_key to_key ignore net))"
    using assms
    by (auto simp: forward_input_to_def and_then_def the_graph_def raise_def succeed_def
        frozen_add_dependency frozen_def split: option.splits)
qed




text \<open>
  C9. In a \<open>build\<close> of an unbuilt network, a \<open>compute_output\<close> hook that returns a value
  other than \<open>None\<close> makes \<open>build\<close> raise \<open>AssertionError\<close> at once: the entry of that hook
  is the last of the log, so no hook ran after it. Hence in a \<open>build\<close> that returns, every
  \<open>compute_output\<close> hook that ran returned \<open>None\<close>.
\<close>

theorem compute_output_returns_none:
  assumes "\<not> is_built net" and "build E ([], net) = ((log, net'), r)"
  shows "(\<forall>n b v. Call ComputeOutput n b (Inr v) \<in> set log \<and> v \<noteq> PyNone
            \<longrightarrow> r = Inl AssertionError \<and> last log = Call ComputeOutput n b (Inr v))
       \<and> (r = Inr ()
            \<longrightarrow> (\<forall>n b out. Call ComputeOutput n b out \<in> set log \<longrightarrow> out = Inr PyNone))"
proof -
  from build_log [OF assms(1,2)] obtain ilr ist where
    ilr: "\<forall>e\<in>set ilr. hook_of e = Some InitLongRangeDependencies"
    and ist: "\<forall>e\<in>set ist. hook_of e = Some InitState"
    and shape: "(log = ilr @ ist \<and> (\<exists>e. r = Inl e))
         \<or> (\<exists>g0 g1 cevs mevs. TreeanoGraph E (root_node net) = Inr g0
              \<and> log = ilr @ ist @ Freeze # cevs @ mevs
              \<and> map called ilr = map (\<lambda>n. Some (InitLongRangeDependencies, n))
                                    (architectural_tree_nodes_root_to_leaves E g0)
              \<and> map called ist = map (\<lambda>n. Some (InitState, n))
                                    (architectural_tree_nodes_root_to_leaves E g1)
              \<and> (\<forall>e\<in>set cevs. hook_of e = Some ComputeOutput)
              \<and> (\<forall>e\<in>set mevs. hook_of e = Some MutateUpdateDeltas)
              \<and> (\<forall>e\<in>set (butlast cevs). outcome e = Some (Inr PyNone))
              \<and> (mevs \<noteq> [] \<or> r = Inr () \<longrightarrow> (\<forall>e\<in>set cevs. outcome e = Some (Inr PyNone)))
              \<and> (\<forall>v. cevs \<noteq> [] \<and> outcome (last cevs) = Some (Inr v) \<and> v \<noteq> PyNone
                    \<longrightarrow> mevs = [] \<and> r = Inl AssertionError)
              \<and> (keeps_frozen E \<longrightarrow> (\<forall>e\<in>set cevs. seen_mutable e = Some False)))"
    by (elim exE conjE) (rule that)
  from shape show ?thesis
  proof (elim disjE exE conjE)
    fix e assume "log = ilr @ ist" "r = Inl e"
    with ilr ist show ?thesis by fastforce
  next
    fix g0 g1 cevs mevs
    assume log: "log = ilr @ ist @ Freeze # cevs @ mevs"
      and cevs: "\<forall>e\<in>set cevs. hook_of e = Some ComputeOutput"
      and mevs: "\<forall>e\<in>set mevs. hook_of e = Some MutateUpdateDeltas"
      and init: "\<forall>e\<in>set (butlast cevs). outcome e = Some (Inr PyNone)"
      and ok: "mevs \<noteq> [] \<or> r = Inr () \<longrightarrow> (\<forall>e\<in>set cevs. outcome e = Some (Inr PyNone))"
      and bad: "\<forall>v. cevs \<noteq> [] \<and> outcome (last cevs) = Some (Inr v) \<and> v \<noteq> PyNone
                    \<longrightarrow> mevs = [] \<and> r = Inl AssertionError"
    have where_compute: "e \<in> set cevs" if "e \<in> set log" "hook_of e = Some ComputeOutput" for e
      using that ilr ist mevs unfolding log by auto
    show ?thesis
    proof (intro conjI allI impI)
      fix n b v
      assume a: "Call ComputeOutput n b (Inr v) \<in> set log \<and> v \<noteq> PyNone"
      let ?e = "Call ComputeOutput n b (Inr v)"
      from a have in_cevs: "?e \<in> set cevs" by (simp add: where_compute)
      then have ne: "cevs \<noteq> []" by auto
      have "?e \<notin> set (butlast cevs)" using init a by auto
      with in_cevs ne have last: "last cevs = ?e"
        by (metis append_butlast_last_id in_set_conv_decomp rotate1.simps(2) set_ConsD set_rotate1)
      with bad ne a have m: "mevs = []" and r: "r = Inl AssertionError" by auto
      from m ne last have "last log = ?e" unfolding log by simp
      with r show "r = Inl AssertionError" "last log = ?e" by simp_all
    next
      fix n b out
      assume "r = Inr ()" and "Call ComputeOutput n b out \<in> set log"
      then show "out = Inr PyNone" using ok where_compute by fastforce
    qed
  qed
qed

lemma ex_returning_log:
  "fst (fst (build ex_env_returning ([], Network_init ex_env_returning ''root'' None None))) =
    [Call InitLongRangeDependencies ''root'' (Some True) (Inr PyNone),
     Call InitLongRangeDependencies ''mid'' (Some True) (Inr PyNone),
     Call InitLongRangeDependencies ''leaf'' (Some True) (Inr PyNone),
     Call InitState ''root'' (Some True) (Inr PyNone),
     Call InitState ''mid'' (Some True) (Inr PyNone),
     Call InitState ''leaf'' (Some True) (Inr PyNone), Freeze,
     Call ComputeOutput ''mid'' (Some False) (Inr PyNone),
     Call ComputeOutput ''leaf'' (Some False) (Inr (PyInt 1))]"
  by (simp add: ex_env_returning_def build_eval)

theorem compute_output_returns_none_witness:
  "snd (build ex_env_returning ([], Network_init ex_env_returning ''root'' None None))
     = Inl AssertionError
   \<and> last (fst (fst (build ex_env_returning
                        ([], Network_init ex_env_returning ''root'' None None))))
     = Call ComputeOutput ''leaf'' (Some False) (Inr (PyInt 1))
   \<and> snd (build ex_env ([], Network_init ex_env ''root'' None None)) = Inr ()
   \<and> list_all (\<lambda>e. hook_of e = Some ComputeOutput \<longrightarrow> outcome e = Some (Inr PyNone))
        (fst (fst (build ex_env ([], Network_init ex_env ''root'' None None))))"
proof -
  let ?net = "Network_init ex_env_returning ''root'' None None
    :: (ex_graph, string, unit) network"
  let ?res = "build ex_env_returning ([], ?net)"
  have unbuilt: "\<not> is_built ?net"
    by (simp add: is_built_def Network_init_def)
  have run: "?res = ((fst (fst ?res), snd (fst ?res)), snd ?res)"
    by simp
  have called: "Call ComputeOutput ''leaf'' (Some False) (Inr (PyInt 1)) \<in> set (fst (fst ?res))
      \<and> PyInt 1 \<noteq> PyNone"
    by (simp add: ex_returning_log)
  from compute_output_returns_none [OF unbuilt run, THEN conjunct1] called
  have bad: "snd ?res = Inl AssertionError
      \<and> last (fst (fst ?res)) = Call ComputeOutput ''leaf'' (Some False) (Inr (PyInt 1))"
    by blast
  let ?net' = "Network_init ex_env ''root'' None None :: (ex_graph, string, unit) network"
  let ?res' = "build ex_env ([], ?net')"
  have unbuilt': "\<not> is_built ?net'"
    by (simp add: is_built_def Network_init_def)
  have run': "?res' = ((fst (fst ?res'), snd (fst ?res')), snd ?res')"
    by simp
  have good: "snd ?res' = Inr ()"
    by (rule ex_build_result)
  from compute_output_returns_none [OF unbuilt' run', THEN conjunct2] good
  have "\<forall>n b out. Call ComputeOutput n b out \<in> set (fst (fst ?res')) \<longrightarrow> out = Inr PyNone"
    by blast
  then have "\<forall>e\<in>set (fst (fst ?res')).
      hook_of e = Some ComputeOutput \<longrightarrow> outcome e = Some (Inr PyNone)"
  proof (intro ballI impI)
    fix e
    assume all: "\<forall>n b out. Call ComputeOutput n b out \<in> set (fst (fst ?res')) \<longrightarrow> out = Inr PyNone"
      and e: "e \<in> set (fst (fst ?res'))" and h: "hook_of e = Some ComputeOutput"
    from h obtain n b out where "e = Call ComputeOutput n b out"
      by (cases e) auto
    with all e show "outcome e = Some (Inr PyNone)" by auto
  qed
  then have "list_all (\<lambda>e. hook_of e = Some ComputeOutput \<longrightarrow> outcome e = Some (Inr PyNone))
        (fst (fst ?res'))"
    by (simp add: list_all_iff)
  with bad good show ?thesis by blast
qed

section \<open>The global default map\<close>

text \<open>\<open>build\<close> never assigns the two hyperparameter maps.\<close>

lemma call_hook_defaults:
  "default_hyperparameters (snd (fst (call_hook h node fn s))) = default_hyperparameters (snd s)"
  by (cases "fst (fn (snd s))") (simp add: call_hook_result apply_effect_def)

lemma hook_step_defaults:
  assumes "and_then (relative_network (succeed ()) node) (\<lambda>_.
             and_then (call_hook h node fn) (\<lambda>_. succeed ())) s = (s', r)"
  shows "default_hyperparameters (snd s') = default_hyperparameters (snd s)"
  using assms
proof (cases rule: and_then_cases)
  case (raised e)
  then show ?thesis using relative_network_succeed_state [of node s] by simp
next
  case (returned s1 rel)
  then have s1: "s1 = s" using relative_network_succeed_state [of node s] by simp
  from returned(2) have "s' = fst (call_hook h node fn s)"
    unfolding s1 by (cases "snd (fn (snd s))") (auto simp: and_then_def call_hook_result succeed_def)
  then show ?thesis by (simp add: call_hook_defaults)
qed

lemma hook_loop_defaults:
  assumes "hook_loop (succeed ()) h f nodes s = (s', r)"
  shows "default_hyperparameters (snd s') = default_hyperparameters (snd s)"
  by (rule for_each_inv [where I = "\<lambda>t. default_hyperparameters (snd t) = default_hyperparameters (snd s)",
        OF _ refl assms [unfolded hook_loop_def]])
     (simp add: hook_step_defaults)

lemma store_inputs_defaults:
  "default_hyperparameters (snd (fst (on_network (store_inputs rel ins) s)))
     = default_hyperparameters (snd s)"
  by (cases "store_inputs rel ins (snd s)")
     (auto simp: on_network_def store_inputs_def put_state_def split: sum.splits)

lemma compute_node_defaults:
  assumes "compute_node (succeed ()) E node s = (s', r)"
  shows "default_hyperparameters (snd s') = default_hyperparameters (snd s)"
  using assms unfolding compute_node_def
proof (cases rule: and_then_cases)
  case (raised e)
  then show ?thesis using relative_network_succeed_state [of node s] by simp
next
  case (returned s1 rel)
  then have s1: "s1 = s" using relative_network_succeed_state [of node s] by simp
  from returned(2) show ?thesis
  proof (cases rule: and_then_cases)
    case (raised e)
    with s1 show ?thesis by auto
  next
    case (returned s2 input_keys)
    then have s2: "s2 = s" using s1 by auto
    from returned(2) show ?thesis
    proof (cases rule: and_then_cases)
      case (raised e)
      then show ?thesis using lookup_inputs_succeed_state [of E node input_keys s2] s2 by simp
    next
      case (returned s3 ins)
      then have s3: "s3 = s"
        using lookup_inputs_succeed_state [of E node input_keys s2] s2 by simp
      from returned(2) show ?thesis
      proof (cases rule: and_then_cases)
        case (raised e)
        then show ?thesis
          using store_inputs_defaults [of rel "dict_zip input_keys ins" s3] s3 by simp
      next
        case (returned s4 u)
        then have s4: "default_hyperparameters (snd s4) = default_hyperparameters (snd s)"
          using store_inputs_defaults [of rel "dict_zip input_keys ins" s3] s3 by simp
        let ?call = "call_hook ComputeOutput node (compute_output E node ins)"
        from returned(2) have "s' = fst (?call s4)"
          by (cases "snd (compute_output E node ins (snd s4))")
             (auto simp: and_then_def call_hook_result succeed_def raise_def split: if_splits)
        then show ?thesis by (simp add: call_hook_defaults s4)
      qed
    qed
  qed
qed

lemma compute_loop_defaults:
  assumes "for_each (compute_node (succeed ()) E) nodes s = (s', r)"
  shows "default_hyperparameters (snd s') = default_hyperparameters (snd s)"
  by (rule for_each_inv [where I = "\<lambda>t. default_hyperparameters (snd t) = default_hyperparameters (snd s)",
        OF _ refl assms])
     (simp add: compute_node_defaults)

lemma init_node_states_defaults:
  "init_node_states nodes s = (s1, r) \<Longrightarrow>
   default_hyperparameters (snd s1) = default_hyperparameters (snd s)"
  by (auto simp: init_node_states_def)

lemma freeze_defaults:
  "freeze s = (s1, r) \<Longrightarrow> default_hyperparameters (snd s1) = default_hyperparameters (snd s)"
  by (auto simp: freeze_def split: option.splits)

lemma build_phases_defaults:
  assumes "build_phases (succeed ()) E s = (s', r)"
  shows "default_hyperparameters (snd s') = default_hyperparameters (snd s)"
  using assms unfolding build_phases_def
  by (elim and_then_cases)
     (auto dest!: the_graph_Inr the_graph_Inl init_node_states_defaults freeze_defaults
          hook_loop_defaults compute_loop_defaults)

lemma build_defaults:
  assumes "build E s = (s', r)"
  shows "default_hyperparameters (snd s') = default_hyperparameters (snd s)"
proof (cases "is_built (snd s)")
  case True
  with assms show ?thesis by (simp add: build_def)
next
  case False
  show ?thesis
  proof (cases "TreeanoGraph E (root_node (snd s))")
    case (Inl e)
    with assms False show ?thesis
      unfolding build_def by (simp add: build_unbuilt del: build_depth.simps)
  next
    case (Inr g)
    with assms False
    have "build_phases (succeed ()) E (fst s, (snd s)\<lparr>graph := Some g\<rparr>) = (s', r)"
      unfolding build_def by (simp add: build_unbuilt del: build_depth.simps)
    from build_phases_defaults [OF this] show ?thesis by simp
  qed
qed

text \<open>
  C10. \<open>__init__\<close> without \<open>default_hyperparameters\<close> gives the global default map
  \<open>{"batch_axis": 0}\<close>, and with a dict gives that dict unchanged; \<open>build\<close> leaves the
  map as it is, whether it returns or raises. On a built network with the former map, \<open>find_hyperparameter(["batch_axis"])\<close> returns \<open>0\<close> when no override
  entry, no value of the walk over the chain and no caller default supplies it; with an
  explicit dict that lacks \<open>batch_axis\<close> the same call raises \<open>MissingHyperparameter\<close>.
\<close>

theorem default_batch_axis:
  "default_hyperparameters (Network_init E root ov None) = [''batch_axis'' \<mapsto> PyInt 0]
   \<and> default_hyperparameters (Network_init E root ov (Some d)) = d
   \<and> (build E (start_log, Network_init E root ov None) = ((log, built), r)
      \<longrightarrow> default_hyperparameters built = [''batch_axis'' \<mapsto> PyInt 0])
   \<and> (default_hyperparameters net = default_hyperparameters (Network_init E root ov None)
        \<and> graph net = Some g \<and> override_hyperparameters net ''batch_axis'' = None
        \<and> hierarchy_nodes E' net [''batch_axis''] []
             (self_name # architecture_ancestors E' g self_name) = ([], None)
      \<longrightarrow> find_hyperparameter E' net self_name [''batch_axis''] None = Inr (PyInt 0))
   \<and> (default_hyperparameters net = default_hyperparameters (Network_init E root ov (Some d))
        \<and> d ''batch_axis'' = None
        \<and> graph net = Some g \<and> override_hyperparameters net ''batch_axis'' = None
        \<and> hierarchy_nodes E' net [''batch_axis''] []
             (self_name # architecture_ancestors E' g self_name) = ([], None)
      \<longrightarrow> find_hyperparameter E' net self_name [''batch_axis''] None
            = Inl (MissingHyperparameter [''batch_axis'']))"
proof -
  have "default_hyperparameters built = [''batch_axis'' \<mapsto> PyInt 0]"
    if "build E (start_log, Network_init E root ov None) = ((log, built), r)"
    using build_defaults [OF that] by (simp add: Network_init_def)
  then show ?thesis
    by (simp add: find_hyperparameter_cases hierarchy_tier_built Network_init_def
        first_present_def)
qed

theorem default_batch_axis_witness:
  "default_hyperparameters
     (snd (fst (build ex_env ([], Network_init ex_env ''root'' None None))))
     = [''batch_axis'' \<mapsto> PyInt 0]
   \<and> find_hyperparameter ex_env ex_net ''leaf'' [''batch_axis''] None = Inr (PyInt 0)
   \<and> find_hyperparameter ex_env (ex_net\<lparr>default_hyperparameters := Map.empty\<rparr>) ''leaf''
       [''batch_axis''] None = Inl (MissingHyperparameter [''batch_axis''])"
proof -
  have a: "find_hyperparameter ex_env ex_net ''leaf'' [''batch_axis''] None = Inr (PyInt 0)"
    using default_batch_axis [where net = ex_net and E = ex_env and root = "''root''"
        and ov = "Some [''ov'' \<mapsto> PyInt 100]" and E' = ex_env and self_name = "''leaf''"
        and g = "\<lparr>is_mutable = True, internals = [(''mid'', ''leaf'', ''out'', ''in'')]\<rparr>"
        and d = Map.empty]
    by (simp add: ex_simps)
  have b: "find_hyperparameter ex_env (ex_net\<lparr>default_hyperparameters := Map.empty\<rparr>) ''leaf''
       [''batch_axis''] None = Inl (MissingHyperparameter [''batch_axis''])"
    using default_batch_axis [where net = "ex_net\<lparr>default_hyperparameters := Map.empty\<rparr>"
        and E = ex_env and root = "''root''"
        and ov = "Some [''ov'' \<mapsto> PyInt 100]" and E' = ex_env and self_name = "''leaf''"
        and g = "\<lparr>is_mutable = True, internals = [(''mid'', ''leaf'', ''out'', ''in'')]\<rparr>"
        and d = Map.empty]
    by (simp add: ex_simps)
  let ?res = "build ex_env ([], Network_init ex_env ''root'' None None)"
  have run: "?res = ((fst (fst ?res), snd (fst ?res)), snd ?res)"
    by simp
  have c: "default_hyperparameters (snd (fst ?res)) = [''batch_axis'' \<mapsto> PyInt 0]"
    using default_batch_axis [where E = ex_env and root = "''root''" and ov = None
        and start_log = "[]" and log = "fst (fst ?res)" and built = "snd (fst ?res)"
        and r = "snd ?res", THEN conjunct2, THEN conjunct2, THEN conjunct1] run
    by blast
  from a b c show ?thesis by simp
qed

end
